theory Spec2Isabelle
  imports Main "HOL-Library.Sublist"
begin

section \<open>Python text\<close>

text \<open>
  A Python \<open>str\<close> is a sequence of Unicode code points, so it is modelled as a list of
  natural numbers. \<open>lit\<close> turns an ASCII literal into that representation.
\<close>

type_synonym pystr = "nat list"

definition lit :: "string \<Rightarrow> pystr" where
  "lit s = map of_char s"

text \<open>
  \<open>str.isspace\<close> for one character: the code points CPython treats as whitespace
  (U+0009..U+000D, U+001C..U+0020, U+0085, U+00A0, U+1680, U+2000..U+200A, U+2028,
  U+2029, U+202F, U+205F, U+3000). \<open>str.split()\<close> and \<open>str.strip()\<close> both use it.
\<close>

definition is_space :: "nat \<Rightarrow> bool" where
  "is_space c =
     ((9 \<le> c \<and> c \<le> 13) \<or> (28 \<le> c \<and> c \<le> 32) \<or> c = 133 \<or> c = 160 \<or> c = 5760 \<or>
      (8192 \<le> c \<and> c \<le> 8202) \<or> c = 8232 \<or> c = 8233 \<or> c = 8239 \<or> c = 8287 \<or> c = 12288)"

text \<open>
  \<open>line.split()\<close>: skip a run of whitespace, take the following run of non-whitespace
  as one word, repeat until the text is used up.
\<close>

function split_ws :: "pystr \<Rightarrow> pystr list" where
  "split_ws s =
     (case dropWhile is_space s of
        [] \<Rightarrow> []
      | c # cs \<Rightarrow>
          (c # takeWhile (\<lambda>x. \<not> is_space x) cs) # split_ws (dropWhile (\<lambda>x. \<not> is_space x) cs))"
  by pat_completeness auto
termination
proof (relation "measure length", goal_cases)
  case 1
  show ?case by simp
next
  case (2 s c cs)
  have "length (dropWhile (\<lambda>x. \<not> is_space x) cs) \<le> length cs"
    by (rule length_dropWhile_le)
  moreover have "length (dropWhile is_space s) \<le> length s"
    by (rule length_dropWhile_le)
  ultimately show ?case using 2 by simp
qed

text \<open>\<open>line.strip()\<close>: drop leading and trailing whitespace.\<close>

definition strip :: "pystr \<Rightarrow> pystr" where
  "strip s = rev (dropWhile is_space (rev (dropWhile is_space s)))"

text \<open>
  \<open>s.split(sep)\<close> for a non-empty separator: cut at every leftmost, non-overlapping
  occurrence of \<open>sep\<close>; \<open>cur\<close> holds the piece read so far. The result always has at
  least one piece. (Python raises ValueError for an empty separator; the script only
  ever passes \<open>"=="\<close>.)
\<close>

function split_sep :: "pystr \<Rightarrow> pystr \<Rightarrow> pystr \<Rightarrow> pystr list" where
  "split_sep sep cur [] = [cur]"
| "split_sep sep cur (c # cs) =
     (if sep \<noteq> [] \<and> prefix sep (c # cs)
      then cur # split_sep sep [] (drop (length sep) (c # cs))
      else split_sep sep (cur @ [c]) cs)"
  by pat_completeness auto
termination
  by (relation "measure (\<lambda>(sep, cur, s). length s)") auto

definition str_split :: "pystr \<Rightarrow> pystr \<Rightarrow> pystr list" where
  "str_split s sep = split_sep sep [] s"

text \<open>\<open>str(n)\<close> for an integer: decimal digits, with a minus sign when negative.\<close>

function str_nat :: "nat \<Rightarrow> pystr" where
  "str_nat n = (if n < 10 then [48 + n] else str_nat (n div 10) @ [48 + n mod 10])"
  by pat_completeness auto
termination
  by (relation "measure id") auto

definition str_int :: "int \<Rightarrow> pystr" where
  "str_int i = (if i < 0 then 45 # str_nat (nat (- i)) else str_nat (nat i))"

text \<open>
  \<open>os.path.join(a, b)\<close> on POSIX: an absolute second component replaces the first;
  otherwise the two are joined with exactly one separator between them.
\<close>

definition path_join :: "pystr \<Rightarrow> pystr \<Rightarrow> pystr" where
  "path_join a b =
     (if prefix (lit ''/'') b then b
      else if a = [] \<or> suffix (lit ''/'') a then a @ b
      else a @ lit ''/'' @ b)"

text \<open>\<open>f.endswith((".py", ".md", ".html", ".txt"))\<close>.\<close>

definition extensions :: "pystr list" where
  "extensions = [lit ''.py'', lit ''.md'', lit ''.html'', lit ''.txt'']"

definition endswith_any :: "pystr \<Rightarrow> pystr list \<Rightarrow> bool" where
  "endswith_any f exts = list_ex (\<lambda>e. suffix e f) exts"

section \<open>The world the script runs in\<close>

text \<open>
  Exceptions that can leave a function of the script uncaught. \<open>FileNotFoundError\<close> is
  the subclass of \<open>OSError\<close> raised by \<open>open\<close> on a missing file;
  \<open>UnicodeDecodeError\<close> is raised while reading text under strict decoding;
  \<open>NonImportError\<close> stands for an exception raised by an import that is not an
  \<open>ImportError\<close>.
\<close>

datatype pyexn =
    FileNotFoundError
  | OtherOSError pystr
  | UnicodeDecodeError
  | NonImportError pystr
  | IndexError

text \<open>
  The \<open>errors\<close> argument of \<open>open\<close>: the default (strict) or \<open>"ignore"\<close>, which drops
  undecodable bytes instead of raising.
\<close>

datatype decode_errors = Strict | Ignore

datatype launch_result = Completed int | LaunchFails pystr

text \<open>
  What opening a file for reading gives. \<open>OpenRaises e\<close>: the call to \<open>open\<close> raises.
  \<open>Opened lines r\<close>: \<open>open\<close> returns a file object; iterating over it yields \<open>lines\<close>
  one by one and then either ends (\<open>r = None\<close>) or raises (\<open>r = Some e\<close>): an
  \<open>OSError\<close> of the read or, under strict decoding, a \<open>UnicodeDecodeError\<close>. The file is
  read lazily, so the lines before the failure have been handed to the loop body.
\<close>

datatype open_result = Opened "pystr list" "pyexn option" | OpenRaises pyexn

datatype probe_result = Response int | RequestRaises pystr

datatype import_result = Imported | ImportError | ImportRaises pyexn

text \<open>
  What the library calls of the script answer:
  \<^item> \<open>subprocess_run argv\<close>: the child ran to completion with a return code, or
    launching it raised an exception with the given message;
  \<^item> \<open>os_walk base\<close>: the (root, directories, files) triples of the walk, in the order
    produced (\<open>os.walk\<close> ignores listing errors, so it never raises);
  \<^item> \<open>open_file path errors\<close>: what opening \<open>path\<close> for reading with that \<open>errors\<close>
    argument gives: the exception \<open>open\<close> raises, or the lines the file yields (each
    with its line ending) and how the reading ends;
  \<^item> \<open>requests_head n url\<close>: the outcome of the HEAD request to \<open>url\<close> when \<open>n\<close>
    requests have been issued before it: a response with a status code, or an exception
    with its message (the network may answer the same URL differently each time);
  \<^item> \<open>import_module name\<close>: the import succeeds, raises \<open>ImportError\<close>, or raises
    something else.
  Asynchronous interrupts (KeyboardInterrupt) and failures of \<open>print\<close> itself are not
  part of the model.
\<close>

record env =
  subprocess_run :: "pystr list \<Rightarrow> launch_result"
  os_walk :: "pystr \<Rightarrow> (pystr \<times> pystr list \<times> pystr list) list"
  open_file :: "pystr \<Rightarrow> decode_errors \<Rightarrow> open_result"
  requests_head :: "nat \<Rightarrow> pystr \<Rightarrow> probe_result"
  import_module :: "pystr \<Rightarrow> import_result"

text \<open>
  The observable behaviour of a run is the sequence of calls it makes to the outside:
  text given to \<open>print\<close>, a subprocess started, a file opened (with its mode), a HEAD
  request (with its timeout), an import attempted.
\<close>

datatype open_mode = ReadText | WriteText | AppendText

datatype event =
    Print pystr
  | Run "pystr list"
  | Open pystr open_mode
  | Head pystr int
  | Import pystr

type_synonym trace = "event list"

datatype outcome = Returned | Raised pyexn

fun is_head :: "event \<Rightarrow> bool" where
  "is_head (Head url t) = True"
| "is_head e = False"

fun is_print :: "event \<Rightarrow> bool" where
  "is_print (Print s) = True"
| "is_print e = False"

fun is_import :: "event \<Rightarrow> bool" where
  "is_import (Import m) = True"
| "is_import e = False"

definition probes_so_far :: "trace \<Rightarrow> nat" where
  "probes_so_far tr = length (filter is_head tr)"

section \<open>check_imports: the lint runner\<close>

definition check_imports :: "env \<Rightarrow> trace \<Rightarrow> trace" where
  "check_imports env tr =
     (let tr1 = tr @ [Print (lit ''Checking imports...'')];
          tr2 = tr1 @ [Run [lit ''flake8'', lit ''.'']]
      in case subprocess_run env [lit ''flake8'', lit ''.''] of
           Completed returncode \<Rightarrow> tr2
         | LaunchFails e \<Rightarrow> tr2 @ [Print (lit ''Error running flake8: '' @ e)])"

section \<open>check_urls: the link scanner\<close>

text \<open>The body of \<open>for url in urls\<close>: one HEAD request inside \<open>try\<close>/\<open>except Exception\<close>.\<close>

definition probe :: "env \<Rightarrow> pystr \<Rightarrow> trace \<Rightarrow> trace" where
  "probe env url tr =
     (let tr1 = tr @ [Head url 5]
      in case requests_head env (probes_so_far tr) url of
           Response status_code \<Rightarrow>
             if status_code \<ge> 400
             then tr1 @ [Print (lit ''[BAD LINK] '' @ url @ lit '' -> '' @ str_int status_code)]
             else tr1
         | RequestRaises e \<Rightarrow> tr1 @ [Print (lit ''[ERROR] '' @ url @ lit '' -> '' @ e)])"

fun probe_all :: "env \<Rightarrow> pystr list \<Rightarrow> trace \<Rightarrow> trace" where
  "probe_all env [] tr = tr"
| "probe_all env (url # urls) tr = probe_all env urls (probe env url tr)"

text \<open>\<open>[word for word in line.split() if word.startswith("http")]\<close>.\<close>

definition urls_of :: "pystr \<Rightarrow> pystr list" where
  "urls_of line = filter (\<lambda>word. prefix (lit ''http'') word) (split_ws line)"

text \<open>The body of \<open>for line in file\<close>.\<close>

definition scan_line :: "env \<Rightarrow> pystr \<Rightarrow> trace \<Rightarrow> trace" where
  "scan_line env line tr =
     (if sublist (lit ''http'') line then probe_all env (urls_of line) tr else tr)"

fun scan_lines :: "env \<Rightarrow> pystr list \<Rightarrow> trace \<Rightarrow> trace" where
  "scan_lines env [] tr = tr"
| "scan_lines env (line # rest) tr = scan_lines env rest (scan_line env line tr)"

text \<open>
  The body of \<open>for f in files\<close>. The \<open>open\<close> and the iteration \<open>for line in file\<close> are
  outside every \<open>try\<close>: when the \<open>open\<close> raises, or when the read raises after some
  lines have been scanned, the exception leaves \<open>check_urls\<close>.
\<close>

fun scan_files :: "env \<Rightarrow> pystr \<Rightarrow> pystr list \<Rightarrow> trace \<Rightarrow> outcome \<times> trace" where
  "scan_files env root [] tr = (Returned, tr)"
| "scan_files env root (f # files) tr =
     (if endswith_any f extensions
      then (let path = path_join root f; tr1 = tr @ [Open path ReadText]
            in case open_file env path Ignore of
                 OpenRaises e \<Rightarrow> (Raised e, tr1)
               | Opened lines r \<Rightarrow>
                   (let tr2 = scan_lines env lines tr1
                    in case r of
                         Some e \<Rightarrow> (Raised e, tr2)
                       | None \<Rightarrow> scan_files env root files tr2))
      else scan_files env root files tr)"

text \<open>The loop \<open>for root, _, files in os.walk(base_path)\<close>.\<close>

fun scan_dirs :: "env \<Rightarrow> (pystr \<times> pystr list \<times> pystr list) list \<Rightarrow> trace \<Rightarrow> outcome \<times> trace" where
  "scan_dirs env [] tr = (Returned, tr)"
| "scan_dirs env ((root, dirs, files) # rest) tr =
     (case scan_files env root files tr of
        (Raised e, tr1) \<Rightarrow> (Raised e, tr1)
      | (Returned, tr1) \<Rightarrow> scan_dirs env rest tr1)"

definition check_urls :: "env \<Rightarrow> pystr \<Rightarrow> trace \<Rightarrow> outcome \<times> trace" where
  "check_urls env base_path tr =
     scan_dirs env (os_walk env base_path)
       (tr @ [Print (10 # lit ''Checking external links...'')])"

section \<open>check_dependencies: the dependency checker\<close>

text \<open>
  The body of \<open>for line in req\<close>. \<open>pkg = line.strip().split("==")[0]\<close> indexes the list
  of pieces, which would raise IndexError on an empty list.
\<close>

definition dep_line :: "env \<Rightarrow> pystr \<Rightarrow> trace \<Rightarrow> outcome \<times> trace" where
  "dep_line env line tr =
     (case str_split (strip line) (lit ''=='') of
        [] \<Rightarrow> (Raised IndexError, tr)
      | pkg # pieces \<Rightarrow>
          if pkg = [] then (Returned, tr)
          else (let tr1 = tr @ [Import pkg]
                in case import_module env pkg of
                     Imported \<Rightarrow> (Returned, tr1)
                   | ImportError \<Rightarrow> (Returned, tr1 @ [Print (lit ''[MISSING] '' @ pkg)])
                   | ImportRaises e \<Rightarrow> (Raised e, tr1)))"

text \<open>
  The loop \<open>for line in req\<close> over the lines the manifest yields; the manifest is opened
  with strict decoding and read lazily, outside every \<open>try\<close>.
\<close>

fun dep_lines :: "env \<Rightarrow> pystr list \<Rightarrow> trace \<Rightarrow> outcome \<times> trace" where
  "dep_lines env [] tr = (Returned, tr)"
| "dep_lines env (line # rest) tr =
     (case dep_line env line tr of
        (Raised e, tr1) \<Rightarrow> (Raised e, tr1)
      | (Returned, tr1) \<Rightarrow> dep_lines env rest tr1)"

definition check_dependencies :: "env \<Rightarrow> trace \<Rightarrow> outcome \<times> trace" where
  "check_dependencies env tr =
     (let tr1 = tr @ [Print (10 # lit ''Checking dependencies...'')];
          tr2 = tr1 @ [Open (lit ''requirements.txt'') ReadText]
      in case open_file env (lit ''requirements.txt'') Strict of
           OpenRaises e \<Rightarrow> (Raised e, tr2)
         | Opened lines r \<Rightarrow>
             (case dep_lines env lines tr2 of
                (Raised e, tr3) \<Rightarrow> (Raised e, tr3)
              | (Returned, tr3) \<Rightarrow>
                  (case r of Some e \<Rightarrow> (Raised e, tr3) | None \<Rightarrow> (Returned, tr3))))"

section \<open>The entry point\<close>

definition start_banner :: pystr where
  "start_banner = lit ''Running full project check...'' @ [10]"

text \<open>The completion banner starts with a newline and U+2705.\<close>

definition completion_banner :: pystr where
  "completion_banner =
     [10, 9989] @ lit '' Scan complete. Fix manually or auto-install missing dependencies.''"

definition main :: "env \<Rightarrow> outcome \<times> trace" where
  "main env =
     (let tr0 = [Print start_banner];
          tr1 = check_imports env tr0
      in case check_urls env (lit ''.'') tr1 of
           (Raised e, tr2) \<Rightarrow> (Raised e, tr2)
         | (Returned, tr2) \<Rightarrow>
             (case check_dependencies env tr2 of
                (Raised e, tr3) \<Rightarrow> (Raised e, tr3)
              | (Returned, tr3) \<Rightarrow> (Returned, tr3 @ [Print completion_banner])))"

text \<open>
  The interpreter's exit status: 0 when the script runs to its end, 1 when an exception
  reaches the top level.
\<close>

definition exit_status :: "outcome \<Rightarrow> int" where
  "exit_status out = (case out of Returned \<Rightarrow> 0 | Raised e \<Rightarrow> 1)"

section \<open>Notions of the specification\<close>

text \<open>A failing probe: a response with status code 400 or above, or an exception.\<close>

definition probe_fails :: "probe_result \<Rightarrow> bool" where
  "probe_fails r = (case r of Response status_code \<Rightarrow> status_code \<ge> 400 | RequestRaises e \<Rightarrow> True)"

text \<open>
  The whitespace-delimited tokens of a line, in the words of the specification: the line
  is a run of whitespace, then a token (a non-empty run without whitespace that ends at
  whitespace or at the end of the line), and so on; after the last token only whitespace
  remains.
\<close>

inductive tokens_of :: "pystr \<Rightarrow> pystr list \<Rightarrow> bool" where
  blank: "list_all is_space sp \<Longrightarrow> tokens_of sp []"
| token: "list_all is_space sp \<Longrightarrow> w \<noteq> [] \<Longrightarrow> list_all (\<lambda>c. \<not> is_space c) w \<Longrightarrow>
          rest = [] \<or> is_space (hd rest) \<Longrightarrow> tokens_of rest ts \<Longrightarrow>
          tokens_of (sp @ w @ rest) (w # ts)"

text \<open>
  The package name of a manifest line, in the words of the specification: the text of
  the stripped line before the first \<open>==\<close> (all of it when there is none).
\<close>

fun before_first :: "pystr \<Rightarrow> pystr \<Rightarrow> pystr" where
  "before_first sep [] = []"
| "before_first sep (c # cs) = (if prefix sep (c # cs) then [] else c # before_first sep cs)"

definition pkg_name :: "pystr \<Rightarrow> pystr" where
  "pkg_name line = before_first (lit ''=='') (strip line)"

text \<open>
  The allow-listed files of a walk, as paths, in the order the scanner meets them; the
  lines of a file; the candidates of a list of files.
\<close>

fun is_open :: "event \<Rightarrow> bool" where
  "is_open (Open path mode) = True"
| "is_open e = False"

definition scanned_files :: "pystr \<Rightarrow> pystr list \<Rightarrow> pystr list" where
  "scanned_files root files = map (path_join root) (filter (\<lambda>f. endswith_any f extensions) files)"

definition scanned_paths :: "env \<Rightarrow> pystr \<Rightarrow> pystr list" where
  "scanned_paths env base =
     concat (map (\<lambda>(root, dirs, files). scanned_files root files) (os_walk env base))"

definition lines_of :: "env \<Rightarrow> pystr \<Rightarrow> pystr list" where
  "lines_of env path =
     (case open_file env path Ignore of Opened lines r \<Rightarrow> lines | OpenRaises e \<Rightarrow> [])"

text \<open>
  A file that can be opened and read to its end, and a file whose opening or reading
  raises \<open>e\<close>.
\<close>

definition reads_to_end :: "env \<Rightarrow> pystr \<Rightarrow> decode_errors \<Rightarrow> bool" where
  "reads_to_end env path errors \<longleftrightarrow> (\<exists>lines. open_file env path errors = Opened lines None)"

definition file_raises :: "env \<Rightarrow> pystr \<Rightarrow> decode_errors \<Rightarrow> pyexn \<Rightarrow> bool" where
  "file_raises env path errors e \<longleftrightarrow>
     open_file env path errors = OpenRaises e \<or>
     (\<exists>lines. open_file env path errors = Opened lines (Some e))"

definition found_urls :: "env \<Rightarrow> pystr list \<Rightarrow> pystr list" where
  "found_urls env paths = concat (map urls_of (concat (map (lines_of env) paths)))"

text \<open>The events the link scanner can produce, given the paths it may open.\<close>

definition scanner_line :: "pystr \<Rightarrow> bool" where
  "scanner_line s \<longleftrightarrow>
     s = 10 # lit ''Checking external links...'' \<or>
     prefix (lit ''[BAD LINK] '') s \<or> prefix (lit ''[ERROR] '') s"

definition scan_event :: "pystr list \<Rightarrow> event \<Rightarrow> bool" where
  "scan_event paths e \<longleftrightarrow>
     (\<exists>u. e = Head u 5) \<or> (\<exists>s. e = Print s \<and> scanner_line s) \<or>
     (\<exists>p. p \<in> set paths \<and> e = Open p ReadText)"

text \<open>A printed line carrying the tag of the dependency checker.\<close>

fun is_missing_line :: "event \<Rightarrow> bool" where
  "is_missing_line (Print s) = prefix (lit ''[MISSING] '') s"
| "is_missing_line e = False"

section \<open>Example worlds\<close>

text \<open>
  A project with a README and a notes file holding three links (one gone, one that times
  out, one fine), an image, the manifest of the specification's example, and no flake8.
\<close>

definition demo_net :: "nat \<Rightarrow> pystr \<Rightarrow> probe_result" where
  "demo_net n url =
     (if url = lit ''http://a.example/gone'' then Response 404
      else if url = lit ''http://b.example/slow'' then RequestRaises (lit ''timed out'')
      else Response 200)"

definition demo_files :: "pystr \<Rightarrow> decode_errors \<Rightarrow> open_result" where
  "demo_files path errors =
     (if path = lit ''./README.md''
      then Opened [lit ''see http://a.example/gone and http://c.example/'' @ [10],
                   lit ''no links here'' @ [10]] None
      else if path = lit ''./docs/notes.txt''
      then Opened [lit ''http://b.example/slow'' @ [10]] None
      else if path = lit ''requirements.txt''
      then Opened [lit ''requests==2.31.0'' @ [10], lit ''not_a_real_pkg_xyz'' @ [10]] None
      else OpenRaises FileNotFoundError)"

definition demo_env :: env where
  "demo_env =
     \<lparr> subprocess_run = (\<lambda>argv. LaunchFails (lit ''flake8 not found'')),
       os_walk = (\<lambda>base. [(lit ''.'', [lit ''docs''], [lit ''README.md'', lit ''logo.png'']),
                          (lit ''./docs'', [], [lit ''notes.txt''])]),
       open_file = demo_files,
       requests_head = demo_net,
       import_module = (\<lambda>name. if name = lit ''requests'' then Imported else ImportError) \<rparr>"

text \<open>The example project without its manifest.\<close>

definition no_manifest_env :: env where
  "no_manifest_env =
     demo_env \<lparr> open_file := (\<lambda>path errors. if path = lit ''requirements.txt''
                                     then OpenRaises FileNotFoundError
                                     else demo_files path errors) \<rparr>"

text \<open>
  The example project with a manifest whose second line cannot be decoded: the read
  yields the first line and then raises.
\<close>

definition undecodable_env :: env where
  "undecodable_env =
     demo_env \<lparr> open_file := (\<lambda>path errors. if path = lit ''requirements.txt''
                                     then Opened [lit ''not_a_real_pkg_xyz'' @ [10]]
                                            (Some UnicodeDecodeError)
                                     else demo_files path errors) \<rparr>"

text \<open>A project whose first markdown file cannot be read.\<close>

definition locked_env :: env where
  "locked_env =
     \<lparr> subprocess_run = (\<lambda>argv. Completed 0),
       os_walk = (\<lambda>base. [(lit ''.'', [], [lit ''a.md'', lit ''b.md''])]),
       open_file = (\<lambda>path errors. if path = lit ''./b.md''
                                  then Opened [lit ''http://c.example/'' @ [10]] None
                                  else OpenRaises (OtherOSError (lit ''Permission denied''))),
       requests_head = (\<lambda>n url. Response 200),
       import_module = (\<lambda>name. Imported) \<rparr>"

text \<open>
  A manifest with a line that starts with the separator, a package whose import raises
  something other than \<open>ImportError\<close>, and one more package after it.
\<close>

definition broken_env :: env where
  "broken_env =
     \<lparr> subprocess_run = (\<lambda>argv. Completed 1),
       os_walk = (\<lambda>base. [(lit ''.'', [], [lit ''logo.png''])]),
       open_file = (\<lambda>path errors. if path = lit ''requirements.txt''
                                  then Opened [lit ''==1.0'' @ [10], lit ''brokenpkg'' @ [10],
                                               lit ''zzz'' @ [10]] None
                                  else OpenRaises FileNotFoundError),
       requests_head = (\<lambda>n url. Response 200),
       import_module = (\<lambda>name. if name = lit ''brokenpkg''
                               then ImportRaises (NonImportError (lit ''boom''))
                               else ImportError) \<rparr>"

declare split_ws.simps [simp del]

section \<open>The probe loop\<close>

lemma probes_so_far_probe: "probes_so_far (probe env url tr) = Suc (probes_so_far tr)"
  by (simp add: probe_def probes_so_far_def Let_def split: probe_result.split)

lemma heads_probe: "filter is_head (probe env url tr) = filter is_head tr @ [Head url 5]"
  by (simp add: probe_def Let_def split: probe_result.split)

lemma prints_probe:
  "length (filter is_print (probe env url tr)) =
     length (filter is_print tr) +
     (if probe_fails (requests_head env (probes_so_far tr) url) then 1 else 0)"
  by (simp add: probe_def probe_fails_def Let_def split: probe_result.split)

lemma heads_probe_all:
  "filter is_head (probe_all env urls tr) = filter is_head tr @ map (\<lambda>u. Head u 5) urls"
  by (induction urls arbitrary: tr) (simp_all add: heads_probe)

lemma count_from_zero:
  "length (filter P [0..<Suc n]) =
     (if P 0 then 1 else 0) + length (filter (\<lambda>i. P (Suc i)) [0..<n])"
proof -
  have "[0..<Suc n] = 0 # map Suc [0..<n]"
    by (simp add: upt_conv_Cons map_Suc_upt del: upt_Suc)
  then show ?thesis
    by (simp add: filter_map comp_def del: upt_Suc)
qed

lemma prints_probe_all:
  "length (filter is_print (probe_all env urls tr)) =
     length (filter is_print tr) +
     length (filter (\<lambda>i. probe_fails (requests_head env (probes_so_far tr + i) (urls ! i)))
               [0..<length urls])"
proof (induction urls arbitrary: tr)
  case Nil
  show ?case by simp
next
  case (Cons url urls)
  show ?case
    by (simp add: Cons.IH prints_probe probes_so_far_probe count_from_zero del: upt_Suc)
qed

text \<open>
  C1. Each probe is one HEAD request with timeout 5, followed by at most one printed
  line: \<open>[BAD LINK] url -> code\<close> when the status code is 400 or more,
  \<open>[ERROR] url -> message\<close> when the request raises, nothing when the status code is
  below 400. Over the candidates of a line, the requests issued are exactly one per
  candidate, in order (nothing is retried), and the number of lines printed is the
  number of failing probes.
\<close>

theorem probe_one_request_one_line:
  "(requests_head env (probes_so_far tr) url = Response code \<and> 400 \<le> code \<longrightarrow>
      probe env url tr =
        tr @ [Head url 5, Print (lit ''[BAD LINK] '' @ url @ lit '' -> '' @ str_int code)]) \<and>
   (requests_head env (probes_so_far tr) url = RequestRaises msg \<longrightarrow>
      probe env url tr = tr @ [Head url 5, Print (lit ''[ERROR] '' @ url @ lit '' -> '' @ msg)]) \<and>
   (requests_head env (probes_so_far tr) url = Response code \<and> code < 400 \<longrightarrow>
      probe env url tr = tr @ [Head url 5]) \<and>
   filter is_head (probe_all env urls tr) = filter is_head tr @ map (\<lambda>u. Head u 5) urls \<and>
   length (filter is_print (probe_all env urls tr)) =
     length (filter is_print tr) +
     length (filter (\<lambda>i. probe_fails (requests_head env (probes_so_far tr + i) (urls ! i)))
               [0..<length urls])"
proof (intro conjI impI)
  assume "requests_head env (probes_so_far tr) url = Response code \<and> 400 \<le> code"
  then show "probe env url tr =
      tr @ [Head url 5, Print (lit ''[BAD LINK] '' @ url @ lit '' -> '' @ str_int code)]"
    by (simp add: probe_def Let_def)
next
  assume "requests_head env (probes_so_far tr) url = RequestRaises msg"
  then show "probe env url tr =
      tr @ [Head url 5, Print (lit ''[ERROR] '' @ url @ lit '' -> '' @ msg)]"
    by (simp add: probe_def Let_def)
next
  assume "requests_head env (probes_so_far tr) url = Response code \<and> code < 400"
  then show "probe env url tr = tr @ [Head url 5]"
    by (simp add: probe_def Let_def)
next
  show "filter is_head (probe_all env urls tr) = filter is_head tr @ map (\<lambda>u. Head u 5) urls"
    by (rule heads_probe_all)
next
  show "length (filter is_print (probe_all env urls tr)) =
     length (filter is_print tr) +
     length (filter (\<lambda>i. probe_fails (requests_head env (probes_so_far tr + i) (urls ! i)))
               [0..<length urls])"
    by (rule prints_probe_all)
qed

theorem probe_one_request_one_line_witness:
  "requests_head demo_env (probes_so_far []) (lit ''http://a.example/gone'') = Response 404 \<and>
   probe demo_env (lit ''http://a.example/gone'') [] =
     [Head (lit ''http://a.example/gone'') 5,
      Print (lit ''[BAD LINK] http://a.example/gone -> 404'')] \<and>
   requests_head demo_env (probes_so_far []) (lit ''http://b.example/slow'') =
     RequestRaises (lit ''timed out'') \<and>
   probe demo_env (lit ''http://b.example/slow'') [] =
     [Head (lit ''http://b.example/slow'') 5,
      Print (lit ''[ERROR] http://b.example/slow -> timed out'')] \<and>
   requests_head demo_env (probes_so_far []) (lit ''http://c.example/'') = Response 200 \<and>
   probe demo_env (lit ''http://c.example/'') [] = [Head (lit ''http://c.example/'') 5] \<and>
   filter is_head
     (probe_all demo_env [lit ''http://a.example/gone'', lit ''http://a.example/gone''] []) =
     [Head (lit ''http://a.example/gone'') 5, Head (lit ''http://a.example/gone'') 5] \<and>
   length (filter is_print
     (probe_all demo_env [lit ''http://a.example/gone'', lit ''http://c.example/''] [])) = 1"
  using
    probe_one_request_one_line [of demo_env "[]" "lit ''http://a.example/gone''" 404
      "lit ''timed out''" "[lit ''http://a.example/gone'', lit ''http://a.example/gone'']"]
    probe_one_request_one_line [of demo_env "[]" "lit ''http://b.example/slow''" 0
      "lit ''timed out''" "[lit ''http://a.example/gone'', lit ''http://c.example/'']"]
    probe_one_request_one_line [of demo_env "[]" "lit ''http://c.example/''" 200
      "lit ''timed out''" "[]"]
  by (simp add: demo_env_def demo_net_def lit_def probe_def probes_so_far_def str_int_def
      probe_fails_def Let_def)

section \<open>Tokens of a line\<close>

lemma split_ws_blank: "list_all is_space sp \<Longrightarrow> split_ws sp = []"
proof -
  assume "list_all is_space sp"
  then have d: "dropWhile is_space sp = []" by (simp add: list_all_iff)
  show ?thesis by (subst split_ws.simps) (simp only: d list.case)
qed

lemma dropWhile_spaces_append:
  "list_all is_space sp \<Longrightarrow> dropWhile is_space (sp @ s) = dropWhile is_space s"
  by (simp add: list_all_iff dropWhile_append3 dropWhile_append)

lemma split_ws_skip: "list_all is_space sp \<Longrightarrow> split_ws (sp @ s) = split_ws s"
  by (subst split_ws.simps, subst (2) split_ws.simps) (simp only: dropWhile_spaces_append)

lemma split_ws_word:
  assumes "w \<noteq> []" "list_all (\<lambda>c. \<not> is_space c) w" "rest = [] \<or> is_space (hd rest)"
  shows "split_ws (w @ rest) = w # split_ws rest"
proof -
  from assms(1) obtain c cs where w: "w = c # cs" by (cases w) auto
  with assms(2) have c: "\<not> is_space c" and cs: "\<forall>x\<in>set cs. \<not> is_space x"
    by (simp_all add: list_all_iff)
  have tw: "takeWhile (\<lambda>x. \<not> is_space x) (cs @ rest) = cs"
    using cs assms(3) by (cases rest) (simp_all add: takeWhile_append2 takeWhile_append)
  have dw: "dropWhile (\<lambda>x. \<not> is_space x) (cs @ rest) = rest"
    using cs assms(3) by (cases rest) (simp_all add: dropWhile_append)
  have "dropWhile is_space (w @ rest) = c # cs @ rest"
    using c by (simp add: w)
  then show ?thesis
    by (subst split_ws.simps) (simp add: w tw dw)
qed

lemma tokens_of_unique: "tokens_of line ts \<Longrightarrow> split_ws line = ts"
proof (induction rule: tokens_of.induct)
  case (blank sp)
  then show ?case by (rule split_ws_blank)
next
  case (token sp w rest ts)
  then show ?case by (simp add: split_ws_skip split_ws_word)
qed

lemma tokens_of_split_ws: "tokens_of line (split_ws line)"
proof (induction line rule: split_ws.induct)
  case (1 s)
  show ?case
  proof (cases "dropWhile is_space s")
    case Nil
    then have all: "list_all is_space s" by (simp add: list_all_iff dropWhile_eq_Nil_conv)
    then have "split_ws s = []" by (rule split_ws_blank)
    with all show ?thesis by (simp add: tokens_of.blank)
  next
    case (Cons c cs)
    let ?sp = "takeWhile is_space s"
    let ?w = "c # takeWhile (\<lambda>x. \<not> is_space x) cs"
    let ?rest = "dropWhile (\<lambda>x. \<not> is_space x) cs"
    have s: "s = ?sp @ ?w @ ?rest"
      using Cons takeWhile_dropWhile_id [of is_space s] by simp
    have c: "\<not> is_space c"
      using Cons hd_dropWhile [of is_space s] by simp
    have sp: "list_all is_space ?sp"
      by (auto simp: list_all_iff dest: set_takeWhileD)
    have w: "list_all (\<lambda>c. \<not> is_space c) ?w"
      using c by (auto simp: list_all_iff dest: set_takeWhileD)
    have rest: "?rest = [] \<or> is_space (hd ?rest)"
      using hd_dropWhile [of "\<lambda>x. \<not> is_space x" cs] by auto
    have IH: "tokens_of ?rest (split_ws ?rest)"
      using 1 Cons by simp
    have "tokens_of (?sp @ ?w @ ?rest) (?w # split_ws ?rest)"
      using sp w rest IH by (intro tokens_of.token) simp_all
    moreover have "split_ws s = ?w # split_ws ?rest"
      by (subst split_ws.simps) (simp add: Cons)
    ultimately show ?thesis using s by simp
  qed
qed

lemma tokens_of_iff: "tokens_of line ts \<longleftrightarrow> ts = split_ws line"
  using tokens_of_unique tokens_of_split_ws by auto

lemma tokens_are_sublists: "tokens_of line ts \<Longrightarrow> w \<in> set ts \<Longrightarrow> sublist w line"
proof (induction rule: tokens_of.induct)
  case (blank sp)
  then show ?case by simp
next
  case (token sp w' rest ts)
  show ?case
  proof (cases "w = w'")
    case True
    show ?thesis unfolding True by (rule sublist_appendI)
  next
    case False
    with token have "sublist w rest" by simp
    then obtain ps ss where "rest = ps @ w @ ss" by (auto simp: sublist_def)
    then have "sp @ w' @ rest = (sp @ w' @ ps) @ w @ ss" by simp
    then show ?thesis by (simp only: sublist_appendI)
  qed
qed

lemma split_ws_sublist: "w \<in> set (split_ws line) \<Longrightarrow> sublist w line"
  by (rule tokens_are_sublists [OF tokens_of_split_ws])

lemma urls_need_http: "\<not> sublist (lit ''http'') line \<Longrightarrow> urls_of line = []"
proof (rule ccontr)
  assume no: "\<not> sublist (lit ''http'') line" and ne: "urls_of line \<noteq> []"
  then obtain w where w: "w \<in> set (split_ws line)" "prefix (lit ''http'') w"
    by (auto simp: urls_of_def filter_empty_conv)
  then have "sublist w line" by (simp add: split_ws_sublist)
  moreover have "sublist (lit ''http'') w" using w(2) by (rule prefix_imp_sublist)
  ultimately have "sublist (lit ''http'') line" by (rule sublist_order.order_trans [rotated])
  with no show False by contradiction
qed

lemma scan_line_probe_all: "scan_line env line tr = probe_all env (urls_of line) tr"
  by (cases "sublist (lit ''http'') line") (simp_all add: scan_line_def urls_need_http)

text \<open>
  C5. The candidates probed for a line are exactly its whitespace-delimited tokens that
  start with \<open>http\<close>, in order, each with one HEAD request. A line without the
  substring \<open>http\<close> yields no candidate and no effect; a line with exactly two such
  tokens yields two probes, the second made whatever the first one reported.
\<close>

theorem candidates_are_http_tokens:
  "tokens_of line (split_ws line) \<and>
   (tokens_of line ts \<longrightarrow>
      urls_of line = filter (prefix (lit ''http'')) ts \<and>
      scan_line env line tr = probe_all env (filter (prefix (lit ''http'')) ts) tr \<and>
      filter is_head (scan_line env line tr) =
        filter is_head tr @ map (\<lambda>u. Head u 5) (filter (prefix (lit ''http'')) ts)) \<and>
   (\<not> sublist (lit ''http'') line \<longrightarrow> urls_of line = [] \<and> scan_line env line tr = tr) \<and>
   (tokens_of line ts \<and> filter (prefix (lit ''http'')) ts = [u1, u2] \<longrightarrow>
      scan_line env line tr = probe env u2 (probe env u1 tr))"
proof (intro conjI impI)
  show "tokens_of line (split_ws line)" by (rule tokens_of_split_ws)
next
  assume "tokens_of line ts"
  then show "urls_of line = filter (prefix (lit ''http'')) ts"
    by (simp add: urls_of_def tokens_of_iff)
next
  assume "tokens_of line ts"
  then have "urls_of line = filter (prefix (lit ''http'')) ts"
    by (simp add: urls_of_def tokens_of_iff)
  then show "scan_line env line tr = probe_all env (filter (prefix (lit ''http'')) ts) tr"
    by (simp add: scan_line_probe_all)
next
  assume "tokens_of line ts"
  then have "urls_of line = filter (prefix (lit ''http'')) ts"
    by (simp add: urls_of_def tokens_of_iff)
  then show "filter is_head (scan_line env line tr) =
      filter is_head tr @ map (\<lambda>u. Head u 5) (filter (prefix (lit ''http'')) ts)"
    by (simp add: scan_line_probe_all heads_probe_all)
next
  assume "\<not> sublist (lit ''http'') line"
  then show "urls_of line = []" by (rule urls_need_http)
next
  assume "\<not> sublist (lit ''http'') line"
  then show "scan_line env line tr = tr" by (simp add: scan_line_def)
next
  assume a: "tokens_of line ts \<and> filter (prefix (lit ''http'')) ts = [u1, u2]"
  then have "ts = split_ws line" by (simp add: tokens_of_iff)
  with a have "urls_of line = [u1, u2]"
    by (simp add: urls_of_def)
  then show "scan_line env line tr = probe env u2 (probe env u1 tr)"
    by (simp add: scan_line_probe_all)
qed

lemma split_demo:
  "split_ws (lit ''see http://a.example/gone and http://c.example/'' @ [10]) =
     [lit ''see'', lit ''http://a.example/gone'', lit ''and'', lit ''http://c.example/'']"
  by (simp add: split_ws.simps lit_def is_space_def)

theorem candidates_are_http_tokens_witness:
  "tokens_of (lit ''see http://a.example/gone and http://c.example/'' @ [10])
     [lit ''see'', lit ''http://a.example/gone'', lit ''and'', lit ''http://c.example/''] \<and>
   filter (prefix (lit ''http''))
     [lit ''see'', lit ''http://a.example/gone'', lit ''and'', lit ''http://c.example/''] =
     [lit ''http://a.example/gone'', lit ''http://c.example/''] \<and>
   scan_line demo_env (lit ''see http://a.example/gone and http://c.example/'' @ [10]) [] =
     [Head (lit ''http://a.example/gone'') 5,
      Print (lit ''[BAD LINK] http://a.example/gone -> 404''),
      Head (lit ''http://c.example/'') 5] \<and>
   \<not> sublist (lit ''http'') (lit ''no links here'' @ [10]) \<and>
   scan_line demo_env (lit ''no links here'' @ [10]) [] = []"
proof -
  let ?L = "lit ''see http://a.example/gone and http://c.example/'' @ [10]"
  let ?ts = "[lit ''see'', lit ''http://a.example/gone'', lit ''and'', lit ''http://c.example/'']"
  note T = candidates_are_http_tokens [of ?L ?ts demo_env "[]"
      "lit ''http://a.example/gone''" "lit ''http://c.example/''"]
  note N = candidates_are_http_tokens [of "lit ''no links here'' @ [10]" "[]" demo_env "[]"]
  have tok: "tokens_of ?L ?ts" using T by (simp only: split_demo)
  have flt: "filter (prefix (lit ''http'')) ?ts =
      [lit ''http://a.example/gone'', lit ''http://c.example/'']"
    by (simp add: lit_def)
  have "scan_line demo_env ?L [] =
      probe demo_env (lit ''http://c.example/'') (probe demo_env (lit ''http://a.example/gone'') [])"
    using T tok flt by blast
  then have scan: "scan_line demo_env ?L [] =
     [Head (lit ''http://a.example/gone'') 5,
      Print (lit ''[BAD LINK] http://a.example/gone -> 404''),
      Head (lit ''http://c.example/'') 5]"
    by (simp add: demo_env_def demo_net_def lit_def probe_def probes_so_far_def str_int_def Let_def)
  have no: "\<not> sublist (lit ''http'') (lit ''no links here'' @ [10])"
    by (simp add: lit_def sublist_Cons_right)
  then have "scan_line demo_env (lit ''no links here'' @ [10]) [] = []"
    using N by blast
  with tok flt scan no show ?thesis by blast
qed

section \<open>Events before a check do not change what it does\<close>

lemma probe_after:
  "filter is_head tr0 = [] \<Longrightarrow> probe env url (tr0 @ tr) = tr0 @ probe env url tr"
  by (simp add: probe_def probes_so_far_def Let_def split: probe_result.split)

lemma heads_probe_nil:
  "filter is_head tr0 = [] \<Longrightarrow> filter is_head (tr0 @ tr) = filter is_head tr"
  by simp

lemma probe_all_after:
  "filter is_head tr0 = [] \<Longrightarrow> probe_all env urls (tr0 @ tr) = tr0 @ probe_all env urls tr"
  by (induction urls arbitrary: tr) (simp_all add: probe_after)

lemma scan_line_after:
  "filter is_head tr0 = [] \<Longrightarrow> scan_line env line (tr0 @ tr) = tr0 @ scan_line env line tr"
  by (simp add: scan_line_def probe_all_after)

lemma scan_lines_after:
  "filter is_head tr0 = [] \<Longrightarrow> scan_lines env lines (tr0 @ tr) = tr0 @ scan_lines env lines tr"
  by (induction lines arbitrary: tr) (simp_all add: scan_line_after)

lemma scan_files_after:
  "filter is_head tr0 = [] \<Longrightarrow>
     scan_files env root files (tr0 @ tr) = apsnd ((@) tr0) (scan_files env root files tr)"
proof (induction files arbitrary: tr)
  case Nil
  show ?case by simp
next
  case (Cons f files)
  have step: "scan_files env root files (tr0 @ tr') = apsnd ((@) tr0) (scan_files env root files tr')" for tr'
    using Cons by simp
  show ?case
  proof (cases "endswith_any f extensions")
    case False
    then show ?thesis by (simp add: step)
  next
    case True
    show ?thesis
    proof (cases "open_file env (path_join root f) Ignore")
      case (OpenRaises e)
      with True show ?thesis by (simp add: Let_def)
    next
      case (Opened lines r)
      have "scan_lines env lines (tr0 @ tr @ [Open (path_join root f) ReadText]) =
          tr0 @ scan_lines env lines (tr @ [Open (path_join root f) ReadText])"
        using Cons.prems by (rule scan_lines_after)
      with True Opened show ?thesis by (cases r) (simp_all add: Let_def step)
    qed
  qed
qed

lemma scan_dirs_after:
  "filter is_head tr0 = [] \<Longrightarrow>
     scan_dirs env walk (tr0 @ tr) = apsnd ((@) tr0) (scan_dirs env walk tr)"
proof (induction walk arbitrary: tr)
  case Nil
  show ?case by simp
next
  case (Cons d walk)
  obtain root dirs files where d: "d = (root, dirs, files)" by (cases d) auto
  obtain out tr1 where r: "scan_files env root files tr = (out, tr1)" by (cases "scan_files env root files tr")
  then have r0: "scan_files env root files (tr0 @ tr) = (out, tr0 @ tr1)"
    using Cons.prems by (simp add: scan_files_after)
  show ?case
    using Cons by (cases out) (simp_all add: d r r0)
qed

lemma check_urls_after:
  "filter is_head tr0 = [] \<Longrightarrow>
     check_urls env base (tr0 @ tr) = apsnd ((@) tr0) (check_urls env base tr)"
  by (simp add: check_urls_def scan_dirs_after)

lemma dep_line_after:
  "dep_line env line (tr0 @ tr) = apsnd ((@) tr0) (dep_line env line tr)"
  by (simp add: dep_line_def Let_def split: list.split import_result.split)

lemma dep_lines_after:
  "dep_lines env lines (tr0 @ tr) = apsnd ((@) tr0) (dep_lines env lines tr)"
proof (induction lines arbitrary: tr)
  case Nil
  show ?case by simp
next
  case (Cons line lines)
  obtain out tr1 where r: "dep_line env line tr = (out, tr1)" by (cases "dep_line env line tr")
  then have r0: "dep_line env line (tr0 @ tr) = (out, tr0 @ tr1)"
    by (simp add: dep_line_after)
  show ?case
    using Cons by (cases out) (simp_all add: r r0)
qed

lemma check_dependencies_after:
  "check_dependencies env (tr0 @ tr) = apsnd ((@) tr0) (check_dependencies env tr)"
proof (cases "open_file env (lit ''requirements.txt'') Strict")
  case (OpenRaises e)
  then show ?thesis by (simp add: check_dependencies_def Let_def)
next
  case (Opened lines r)
  let ?P = "[Print (10 # lit ''Checking dependencies...''), Open (lit ''requirements.txt'') ReadText]"
  obtain out t where d: "dep_lines env lines (tr @ ?P) = (out, t)"
    by (cases "dep_lines env lines (tr @ ?P)")
  then have d0: "dep_lines env lines (tr0 @ tr @ ?P) = (out, tr0 @ t)"
    using dep_lines_after [of env lines tr0 "tr @ ?P"] by simp
  show ?thesis
  proof (cases out)
    case (Raised e)
    with Opened d d0 show ?thesis by (simp add: check_dependencies_def Let_def)
  next
    case Returned
    with Opened d d0 show ?thesis by (cases r) (simp_all add: check_dependencies_def Let_def)
  qed
qed

lemma check_imports_after: "check_imports env (tr0 @ tr) = tr0 @ check_imports env tr"
  by (simp add: check_imports_def Let_def split: launch_result.split)

section \<open>The traversal\<close>

lemma heads_scan_lines:
  "filter is_head (scan_lines env lines tr) =
     filter is_head tr @ map (\<lambda>u. Head u 5) (concat (map urls_of lines))"
  by (induction lines arbitrary: tr) (simp_all add: scan_line_probe_all heads_probe_all)

lemma opens_probe_all: "filter is_open (probe_all env urls tr) = filter is_open tr"
  by (induction urls arbitrary: tr) (simp_all add: probe_def Let_def split: probe_result.split)

lemma opens_scan_lines: "filter is_open (scan_lines env lines tr) = filter is_open tr"
  by (induction lines arbitrary: tr) (simp_all add: scan_line_probe_all opens_probe_all)

lemma scan_files_complete:
  "\<forall>p\<in>set (scanned_files root files). reads_to_end env p Ignore \<Longrightarrow>
     fst (scan_files env root files tr) = Returned \<and>
     filter is_open (snd (scan_files env root files tr)) =
       filter is_open tr @ map (\<lambda>p. Open p ReadText) (scanned_files root files) \<and>
     filter is_head (snd (scan_files env root files tr)) =
       filter is_head tr @ map (\<lambda>u. Head u 5) (found_urls env (scanned_files root files))"
proof (induction files arbitrary: tr)
  case Nil
  show ?case by (simp add: scanned_files_def found_urls_def)
next
  case (Cons f files)
  show ?case
  proof (cases "endswith_any f extensions")
    case False
    with Cons show ?thesis by (simp add: scanned_files_def)
  next
    case True
    with Cons.prems obtain ls where ls: "open_file env (path_join root f) Ignore = Opened ls None"
      by (auto simp: scanned_files_def reads_to_end_def)
    have rest: "\<forall>p\<in>set (scanned_files root files). reads_to_end env p Ignore"
      using Cons.prems True by (simp add: scanned_files_def)
    note IH = Cons.IH [OF rest, of "scan_lines env ls (tr @ [Open (path_join root f) ReadText])"]
    have sf: "scanned_files root (f # files) = path_join root f # scanned_files root files"
      using True by (simp add: scanned_files_def)
    have fu: "found_urls env (path_join root f # scanned_files root files) =
        concat (map urls_of ls) @ found_urls env (scanned_files root files)"
      by (simp add: found_urls_def lines_of_def ls)
    show ?thesis
      using IH True by (simp add: ls Let_def sf fu heads_scan_lines opens_scan_lines)
  qed
qed

lemma scan_dirs_complete:
  "\<forall>p\<in>set (concat (map (\<lambda>(root, dirs, files). scanned_files root files) walk)).
      reads_to_end env p Ignore \<Longrightarrow>
     fst (scan_dirs env walk tr) = Returned \<and>
     filter is_open (snd (scan_dirs env walk tr)) =
       filter is_open tr @
       map (\<lambda>p. Open p ReadText) (concat (map (\<lambda>(root, dirs, files). scanned_files root files) walk)) \<and>
     filter is_head (snd (scan_dirs env walk tr)) =
       filter is_head tr @
       map (\<lambda>u. Head u 5)
         (found_urls env (concat (map (\<lambda>(root, dirs, files). scanned_files root files) walk)))"
proof (induction walk arbitrary: tr)
  case Nil
  show ?case by (simp add: found_urls_def)
next
  case (Cons d walk)
  obtain root dirs files where d: "d = (root, dirs, files)" by (cases d) auto
  have here: "\<forall>p\<in>set (scanned_files root files). reads_to_end env p Ignore"
    using Cons.prems by (simp add: d)
  have rest: "\<forall>p\<in>set (concat (map (\<lambda>(root, dirs, files). scanned_files root files) walk)).
      reads_to_end env p Ignore"
    using Cons.prems by (simp add: d)
  obtain tr1 where r: "scan_files env root files tr = (Returned, tr1)"
    using scan_files_complete [OF here, of tr] by (cases "scan_files env root files tr") simp
  have f1: "filter is_open tr1 = filter is_open tr @ map (\<lambda>p. Open p ReadText) (scanned_files root files)"
    and f2: "filter is_head tr1 = filter is_head tr @ map (\<lambda>u. Head u 5) (found_urls env (scanned_files root files))"
    using scan_files_complete [OF here, of tr] r by simp_all
  have fu: "found_urls env (scanned_files root files @ ps) =
      found_urls env (scanned_files root files) @ found_urls env ps" for ps
    by (simp add: found_urls_def)
  show ?case
    using Cons.IH [OF rest, of tr1] by (simp add: d r f1 f2 fu)
qed

lemma scan_files_raises:
  "fst (scan_files env root files tr) = Raised e \<Longrightarrow>
     \<exists>p\<in>set (scanned_files root files). file_raises env p Ignore e"
proof (induction files arbitrary: tr)
  case Nil
  then show ?case by simp
next
  case (Cons f files)
  show ?case
  proof (cases "endswith_any f extensions")
    case False
    with Cons show ?thesis by (simp add: scanned_files_def)
  next
    case True
    let ?p = "path_join root f"
    have here: "?p \<in> set (scanned_files root (f # files))"
      using True by (simp add: scanned_files_def)
    have sub: "set (scanned_files root files) \<subseteq> set (scanned_files root (f # files))"
      by (auto simp: scanned_files_def)
    show ?thesis
    proof (cases "open_file env ?p Ignore")
      case (OpenRaises e')
      with True Cons.prems have "file_raises env ?p Ignore e"
        by (simp add: file_raises_def Let_def)
      with here show ?thesis by blast
    next
      case (Opened ls r)
      show ?thesis
      proof (cases r)
        case (Some e')
        with Opened True Cons.prems have "file_raises env ?p Ignore e"
          by (simp add: file_raises_def Let_def)
        with here show ?thesis by blast
      next
        case None
        with Opened True Cons.prems
        have "fst (scan_files env root files (scan_lines env ls (tr @ [Open ?p ReadText]))) = Raised e"
          by (simp add: Let_def)
        then have "\<exists>p\<in>set (scanned_files root files). file_raises env p Ignore e"
          by (rule Cons.IH)
        with sub show ?thesis by blast
      qed
    qed
  qed
qed

lemma scan_dirs_raises:
  "fst (scan_dirs env walk tr) = Raised e \<Longrightarrow>
     \<exists>p\<in>set (concat (map (\<lambda>(root, dirs, files). scanned_files root files) walk)).
        file_raises env p Ignore e"
proof (induction walk arbitrary: tr)
  case Nil
  then show ?case by simp
next
  case (Cons d walk)
  obtain root dirs files where d: "d = (root, dirs, files)" by (cases d) auto
  obtain out tr1 where r: "scan_files env root files tr = (out, tr1)" by (cases "scan_files env root files tr")
  show ?case
  proof (cases out)
    case Returned
    with Cons.prems have "fst (scan_dirs env walk tr1) = Raised e" by (simp add: d r)
    then have "\<exists>p\<in>set (concat (map (\<lambda>(root, dirs, files). scanned_files root files) walk)).
        file_raises env p Ignore e" by (rule Cons.IH)
    then show ?thesis by (auto simp: d)
  next
    case (Raised e')
    with Cons.prems have "e' = e" by (simp add: d r)
    with Raised r have "fst (scan_files env root files tr) = Raised e" by simp
    then have "\<exists>p\<in>set (scanned_files root files). file_raises env p Ignore e"
      by (rule scan_files_raises)
    then show ?thesis by (auto simp: d)
  qed
qed

lemma check_urls_raises:
  "fst (check_urls env base tr) = Raised e \<Longrightarrow>
     \<exists>p\<in>set (scanned_paths env base). file_raises env p Ignore e"
  unfolding check_urls_def scanned_paths_def by (rule scan_dirs_raises)

section \<open>What the scanner can emit\<close>

lemma scan_event_mono:
  "scan_event ps e \<Longrightarrow> set ps \<subseteq> set qs \<Longrightarrow> scan_event qs e"
  by (auto simp: scan_event_def)

lemma probe_events: "e \<in> set (probe env url tr) \<Longrightarrow> e \<in> set tr \<or> scan_event [] e"
  by (auto simp: probe_def Let_def scan_event_def scanner_line_def split: probe_result.splits if_splits)

lemma probe_all_events: "e \<in> set (probe_all env urls tr) \<Longrightarrow> e \<in> set tr \<or> scan_event [] e"
proof (induction urls arbitrary: tr)
  case Nil
  then show ?case by simp
next
  case (Cons url urls)
  then have "e \<in> set (probe env url tr) \<or> scan_event [] e" by simp
  then show ?case using probe_events by blast
qed

lemma scan_lines_events: "e \<in> set (scan_lines env lines tr) \<Longrightarrow> e \<in> set tr \<or> scan_event [] e"
proof (induction lines arbitrary: tr)
  case Nil
  then show ?case by simp
next
  case (Cons line lines)
  then have "e \<in> set (scan_line env line tr) \<or> scan_event [] e" by simp
  then show ?case using probe_all_events by (auto simp: scan_line_probe_all)
qed

lemma scan_files_events:
  "e \<in> set (snd (scan_files env root files tr)) \<Longrightarrow>
     e \<in> set tr \<or> scan_event (scanned_files root files) e"
proof (induction files arbitrary: tr)
  case Nil
  then show ?case by simp
next
  case (Cons f files)
  show ?case
  proof (cases "endswith_any f extensions")
    case False
    with Cons show ?thesis by (simp add: scanned_files_def)
  next
    case True
    let ?p = "path_join root f"
    have sf: "scanned_files root (f # files) = ?p # scanned_files root files"
      using True by (simp add: scanned_files_def)
    have here: "scan_event (scanned_files root (f # files)) (Open ?p ReadText)"
      by (simp add: sf scan_event_def)
    have up: "scan_event ps e \<Longrightarrow> scan_event (scanned_files root (f # files)) e"
      if "set ps \<subseteq> set (scanned_files root files)" for ps
      using that scan_event_mono [of ps e "scanned_files root (f # files)"] by (auto simp: sf)
    show ?thesis
    proof (cases "open_file env ?p Ignore")
      case (OpenRaises e')
      with True Cons.prems have "e \<in> set tr \<or> e = Open ?p ReadText" by (auto simp: Let_def)
      with here show ?thesis by auto
    next
      case (Opened ls r)
      have "e \<in> set (scan_lines env ls (tr @ [Open ?p ReadText])) \<or>
          scan_event (scanned_files root files) e"
      proof (cases r)
        case (Some e')
        with Opened True Cons.prems show ?thesis by (simp add: Let_def)
      next
        case None
        with Opened True Cons.prems
        have "e \<in> set (snd (scan_files env root files (scan_lines env ls (tr @ [Open ?p ReadText]))))"
          by (simp add: Let_def)
        then show ?thesis by (rule Cons.IH)
      qed
      then have "e \<in> set (tr @ [Open ?p ReadText]) \<or> scan_event [] e \<or>
          scan_event (scanned_files root files) e"
        using scan_lines_events by blast
      then show ?thesis using here up [of "[]"] up [of "scanned_files root files"] by auto
    qed
  qed
qed

lemma scan_dirs_events:
  "e \<in> set (snd (scan_dirs env walk tr)) \<Longrightarrow>
     e \<in> set tr \<or>
     scan_event (concat (map (\<lambda>(root, dirs, files). scanned_files root files) walk)) e"
proof (induction walk arbitrary: tr)
  case Nil
  then show ?case by simp
next
  case (Cons d walk)
  obtain root dirs files where d: "d = (root, dirs, files)" by (cases d) auto
  obtain out tr1 where r: "scan_files env root files tr = (out, tr1)" by (cases "scan_files env root files tr")
  let ?all = "concat (map (\<lambda>(root, dirs, files). scanned_files root files) (d # walk))"
  have first: "e \<in> set tr1 \<Longrightarrow> e \<in> set tr \<or> scan_event ?all e"
  proof -
    assume "e \<in> set tr1"
    then have "e \<in> set (snd (scan_files env root files tr))" by (simp add: r)
    then have "e \<in> set tr \<or> scan_event (scanned_files root files) e" by (rule scan_files_events)
    then show ?thesis by (auto simp: d intro: scan_event_mono)
  qed
  show ?case
  proof (cases out)
    case (Raised e')
    with Cons.prems have "e \<in> set tr1" by (simp add: d r)
    then show ?thesis by (rule first)
  next
    case Returned
    with Cons.prems have "e \<in> set (snd (scan_dirs env walk tr1))" by (simp add: d r)
    then have "e \<in> set tr1 \<or>
        scan_event (concat (map (\<lambda>(root, dirs, files). scanned_files root files) walk)) e"
      by (rule Cons.IH)
    then show ?thesis using first by (auto simp: d intro: scan_event_mono)
  qed
qed

lemma check_urls_events:
  "e \<in> set (snd (check_urls env base tr)) \<Longrightarrow>
     e \<in> set tr \<or> scan_event (scanned_paths env base) e"
proof -
  assume "e \<in> set (snd (check_urls env base tr))"
  then have "e \<in> set (tr @ [Print (10 # lit ''Checking external links...'')]) \<or>
      scan_event (scanned_paths env base) e"
    unfolding check_urls_def scanned_paths_def by (rule scan_dirs_events)
  then show ?thesis by (auto simp: scan_event_def scanner_line_def)
qed

section \<open>A joined path ends as its file name does\<close>

lemma suffix_after_slash:
  assumes "47 \<notin> set e"
  shows "suffix e (r @ 47 # f) \<longleftrightarrow> suffix e f"
proof
  assume "suffix e f"
  then show "suffix e (r @ 47 # f)" by (simp add: suffix_def) (metis append_assoc append_Cons)
next
  assume "suffix e (r @ 47 # f)"
  then have "suffix e (47 # f) \<or> (\<exists>xs'. e = xs' @ 47 # f \<and> suffix xs' r)"
    by (simp add: suffix_append)
  with assms have "suffix e (47 # f)" by auto
  with assms show "suffix e f" by (auto simp: suffix_Cons)
qed

lemma suffix_path_join:
  assumes "47 \<notin> set e"
  shows "suffix e (path_join root f) \<longleftrightarrow> suffix e f"
proof (cases "prefix (lit ''/'') f \<or> root = []")
  case True
  then show ?thesis by (auto simp: path_join_def)
next
  case False
  show ?thesis
  proof (cases "suffix (lit ''/'') root")
    case True
    then obtain r where "root = r @ [47]" by (auto simp: suffix_def lit_def)
    with False True show ?thesis
      using suffix_after_slash [OF assms, of r f] by (simp add: path_join_def)
  next
    case notslash: False
    with False show ?thesis
      using suffix_after_slash [OF assms, of root f] by (simp add: path_join_def lit_def)
  qed
qed

lemma endswith_path_join:
  "endswith_any (path_join root f) extensions \<longleftrightarrow> endswith_any f extensions"
proof -
  have "\<forall>e\<in>set extensions. 47 \<notin> set e" by (simp add: extensions_def lit_def)
  then show ?thesis
    by (simp add: endswith_any_def list_ex_iff suffix_path_join cong: bex_cong)
qed

lemma scanned_paths_iff:
  "p \<in> set (scanned_paths env base) \<longleftrightarrow>
     (\<exists>root dirs files f. (root, dirs, files) \<in> set (os_walk env base) \<and> f \<in> set files \<and>
        endswith_any f extensions \<and> p = path_join root f)"
proof
  assume "p \<in> set (scanned_paths env base)"
  then obtain d where d: "d \<in> set (os_walk env base)"
      and p: "p \<in> set (case d of (root, dirs, files) \<Rightarrow> scanned_files root files)"
    by (auto simp: scanned_paths_def)
  obtain root dirs files where t: "d = (root, dirs, files)" by (cases d) auto
  with p obtain f where "f \<in> set files" "endswith_any f extensions" "p = path_join root f"
    by (auto simp: scanned_files_def)
  with d t show "\<exists>root dirs files f. (root, dirs, files) \<in> set (os_walk env base) \<and> f \<in> set files \<and>
        endswith_any f extensions \<and> p = path_join root f" by blast
next
  assume "\<exists>root dirs files f. (root, dirs, files) \<in> set (os_walk env base) \<and> f \<in> set files \<and>
        endswith_any f extensions \<and> p = path_join root f"
  then obtain root dirs files f where d: "(root, dirs, files) \<in> set (os_walk env base)"
      and f: "f \<in> set files" "endswith_any f extensions" "p = path_join root f" by blast
  from f have "p \<in> set (scanned_files root files)" by (simp add: scanned_files_def)
  with d show "p \<in> set (scanned_paths env base)"
    by (force simp: scanned_paths_def)
qed

text \<open>
  C7. Every event of the link scanner is a \<open>print\<close>, a HEAD request, or the opening
  for reading of a file of the walk whose name (and so whose path) ends in one of
  \<open>.py\<close>, \<open>.md\<close>, \<open>.html\<close>, \<open>.txt\<close>. So a file whose name has no such ending is
  never opened, in any mode, and nothing is opened for writing.
\<close>

theorem scanner_opens_only_allowed:
  "(e \<in> set (snd (check_urls env base tr)) \<longrightarrow>
      e \<in> set tr \<or> is_print e \<or> (\<exists>u. e = Head u 5) \<or>
      (\<exists>root dirs files f. (root, dirs, files) \<in> set (os_walk env base) \<and> f \<in> set files \<and>
          endswith_any f extensions \<and> endswith_any (path_join root f) extensions \<and>
          e = Open (path_join root f) ReadText)) \<and>
   ((root, dirs, files) \<in> set (os_walk env base) \<and> f \<in> set files \<and>
    \<not> endswith_any f extensions \<and> Open (path_join root f) mode \<in> set (snd (check_urls env base tr)) \<longrightarrow>
      Open (path_join root f) mode \<in> set tr)"
proof (intro conjI impI)
  assume "e \<in> set (snd (check_urls env base tr))"
  then have "e \<in> set tr \<or> scan_event (scanned_paths env base) e"
    by (rule check_urls_events)
  then show "e \<in> set tr \<or> is_print e \<or> (\<exists>u. e = Head u 5) \<or>
      (\<exists>root dirs files f. (root, dirs, files) \<in> set (os_walk env base) \<and> f \<in> set files \<and>
          endswith_any f extensions \<and> endswith_any (path_join root f) extensions \<and>
          e = Open (path_join root f) ReadText)"
  proof (elim disjE)
    assume "e \<in> set tr"
    then show ?thesis by simp
  next
    assume "scan_event (scanned_paths env base) e"
    then consider u where "e = Head u 5" | s where "e = Print s"
      | p where "p \<in> set (scanned_paths env base)" "e = Open p ReadText"
      by (auto simp: scan_event_def)
    then show ?thesis
    proof cases
      case 1
      then show ?thesis by blast
    next
      case 2
      then show ?thesis by simp
    next
      case 3
      then obtain r d fs g where g: "(r, d, fs) \<in> set (os_walk env base)" "g \<in> set fs"
          "endswith_any g extensions" "p = path_join r g"
        by (auto simp: scanned_paths_iff)
      then have "endswith_any (path_join r g) extensions" by (simp add: endswith_path_join)
      with g 3 show ?thesis by blast
    qed
  qed
next
  assume a: "(root, dirs, files) \<in> set (os_walk env base) \<and> f \<in> set files \<and>
    \<not> endswith_any f extensions \<and> Open (path_join root f) mode \<in> set (snd (check_urls env base tr))"
  then have "Open (path_join root f) mode \<in> set tr \<or>
      scan_event (scanned_paths env base) (Open (path_join root f) mode)"
    by (simp add: check_urls_events)
  moreover have "\<not> scan_event (scanned_paths env base) (Open (path_join root f) mode)"
  proof
    assume "scan_event (scanned_paths env base) (Open (path_join root f) mode)"
    then have "path_join root f \<in> set (scanned_paths env base)"
      by (auto simp: scan_event_def)
    then obtain root' f' where "endswith_any f' extensions" "path_join root f = path_join root' f'"
      by (auto simp: scanned_paths_iff)
    then have "endswith_any (path_join root f) extensions"
      by (simp add: endswith_path_join)
    then have "endswith_any f extensions" by (simp add: endswith_path_join)
    with a show False by simp
  qed
  ultimately show "Open (path_join root f) mode \<in> set tr" by simp
qed

lemma demo_scan:
  "check_urls demo_env (lit ''.'') [] =
     (Returned,
      [Print (10 # lit ''Checking external links...''),
       Open (lit ''./README.md'') ReadText,
       Head (lit ''http://a.example/gone'') 5,
       Print (lit ''[BAD LINK] http://a.example/gone -> 404''),
       Head (lit ''http://c.example/'') 5,
       Open (lit ''./docs/notes.txt'') ReadText,
       Head (lit ''http://b.example/slow'') 5,
       Print (lit ''[ERROR] http://b.example/slow -> timed out'')])"
  by (simp add: check_urls_def demo_env_def demo_files_def demo_net_def endswith_any_def
      extensions_def path_join_def scan_line_def urls_of_def split_ws.simps is_space_def
      probe_def probes_so_far_def str_int_def Let_def lit_def suffix_to_prefix
      sublist_Cons_right)

theorem scanner_opens_only_allowed_witness:
  "(lit ''.'', [lit ''docs''], [lit ''README.md'', lit ''logo.png'']) \<in> set (os_walk demo_env (lit ''.'')) \<and>
   lit ''logo.png'' \<in> set [lit ''README.md'', lit ''logo.png''] \<and>
   \<not> endswith_any (lit ''logo.png'') extensions \<and>
   path_join (lit ''.'') (lit ''logo.png'') = lit ''./logo.png'' \<and>
   Open (lit ''./logo.png'') ReadText \<notin> set (snd (check_urls demo_env (lit ''.'') [])) \<and>
   Open (lit ''./README.md'') ReadText \<in> set (snd (check_urls demo_env (lit ''.'') []))"
proof -
  have w: "(lit ''.'', [lit ''docs''], [lit ''README.md'', lit ''logo.png'']) \<in> set (os_walk demo_env (lit ''.''))"
    by (simp add: demo_env_def)
  have n: "\<not> endswith_any (lit ''logo.png'') extensions"
    by (simp add: endswith_any_def extensions_def lit_def suffix_to_prefix)
  have p: "path_join (lit ''.'') (lit ''logo.png'') = lit ''./logo.png''"
    by (simp add: path_join_def lit_def suffix_to_prefix)
  have "Open (lit ''./logo.png'') ReadText \<notin> set (snd (check_urls demo_env (lit ''.'') []))"
    using scanner_opens_only_allowed [of _ demo_env "lit ''.''" "[]" "lit ''.''" "[lit ''docs'']"
        "[lit ''README.md'', lit ''logo.png'']" "lit ''logo.png''" ReadText] w n p
    by auto
  moreover have "Open (lit ''./README.md'') ReadText \<in> set (snd (check_urls demo_env (lit ''.'') []))"
    by (simp add: demo_scan)
  ultimately show ?thesis using w n p by simp
qed

text \<open>
  C3, amended. When every allow-listed file of the walk can be opened and read to its
  end, the scanner returns normally whatever the probes do, having opened every such
  file once, in order, and probed every candidate of every line. The scanner raises
  only when opening or reading one of these files raises (the \<open>open\<close> and the iteration
  over the file are outside every \<open>try\<close>). A failing probe is turned, inside the loop
  body, into one printed line.
\<close>

theorem scanner_completes_when_files_readable:
  "((\<forall>p\<in>set (scanned_paths env base). reads_to_end env p Ignore) \<longrightarrow>
      fst (check_urls env base tr) = Returned \<and>
      filter is_open (snd (check_urls env base tr)) =
        filter is_open tr @ map (\<lambda>p. Open p ReadText) (scanned_paths env base) \<and>
      filter is_head (snd (check_urls env base tr)) =
        filter is_head tr @ map (\<lambda>u. Head u 5) (found_urls env (scanned_paths env base))) \<and>
   (fst (check_urls env base tr) = Raised e \<longrightarrow>
      (\<exists>p. p \<in> set (scanned_paths env base) \<and> file_raises env p Ignore e)) \<and>
   (probe_fails (requests_head env (probes_so_far tr') url) \<longrightarrow>
      (\<exists>s. probe env url tr' = tr' @ [Head url 5, Print s]))"
proof (intro conjI impI)
  assume "probe_fails (requests_head env (probes_so_far tr') url)"
  then show "\<exists>s. probe env url tr' = tr' @ [Head url 5, Print s]"
    by (cases "requests_head env (probes_so_far tr') url")
      (simp_all add: probe_def probe_fails_def Let_def)
next
  assume a: "\<forall>p\<in>set (scanned_paths env base). reads_to_end env p Ignore"
  note C = scan_dirs_complete [of "os_walk env base" env
      "tr @ [Print (10 # lit ''Checking external links...'')]"]
  from a C show "fst (check_urls env base tr) = Returned"
    by (simp add: check_urls_def scanned_paths_def)
  from a C show "filter is_open (snd (check_urls env base tr)) =
        filter is_open tr @ map (\<lambda>p. Open p ReadText) (scanned_paths env base)"
    by (simp add: check_urls_def scanned_paths_def)
  from a C show "filter is_head (snd (check_urls env base tr)) =
        filter is_head tr @ map (\<lambda>u. Head u 5) (found_urls env (scanned_paths env base))"
    by (simp add: check_urls_def scanned_paths_def)
next
  assume "fst (check_urls env base tr) = Raised e"
  then show "\<exists>p. p \<in> set (scanned_paths env base) \<and> file_raises env p Ignore e"
    using check_urls_raises by blast
qed

theorem scanner_completes_when_files_readable_witness:
  "scanned_paths demo_env (lit ''.'') = [lit ''./README.md'', lit ''./docs/notes.txt''] \<and>
   reads_to_end demo_env (lit ''./README.md'') Ignore \<and>
   reads_to_end demo_env (lit ''./docs/notes.txt'') Ignore \<and>
   fst (check_urls demo_env (lit ''.'') []) = Returned \<and>
   filter is_open (snd (check_urls demo_env (lit ''.'') [])) =
     [Open (lit ''./README.md'') ReadText, Open (lit ''./docs/notes.txt'') ReadText] \<and>
   length (filter is_head (snd (check_urls demo_env (lit ''.'') []))) = 3 \<and>
   probe_fails (requests_head demo_env (probes_so_far []) (lit ''http://b.example/slow'')) \<and>
   (\<exists>s. probe demo_env (lit ''http://b.example/slow'') [] =
      [Head (lit ''http://b.example/slow'') 5, Print s])"
proof -
  have pf: "probe_fails (requests_head demo_env (probes_so_far []) (lit ''http://b.example/slow''))"
    by (simp add: probe_fails_def demo_env_def demo_net_def lit_def)
  have pr: "\<exists>s. probe demo_env (lit ''http://b.example/slow'') [] =
      [Head (lit ''http://b.example/slow'') 5, Print s]"
    using scanner_completes_when_files_readable
      [of demo_env "lit ''.''" "[]" _ "[]" "lit ''http://b.example/slow''"] pf
    by simp
  have sp: "scanned_paths demo_env (lit ''.'') = [lit ''./README.md'', lit ''./docs/notes.txt'']"
    by (simp add: scanned_paths_def scanned_files_def demo_env_def endswith_any_def
        extensions_def path_join_def lit_def suffix_to_prefix)
  have o1: "reads_to_end demo_env (lit ''./README.md'') Ignore"
    by (simp add: reads_to_end_def demo_env_def demo_files_def lit_def)
  have o2: "reads_to_end demo_env (lit ''./docs/notes.txt'') Ignore"
    by (simp add: reads_to_end_def demo_env_def demo_files_def lit_def)
  have all: "\<forall>p\<in>set (scanned_paths demo_env (lit ''.'')). reads_to_end demo_env p Ignore"
    using o1 o2 by (simp add: sp)
  have r: "fst (check_urls demo_env (lit ''.'') []) = Returned \<and>
      filter is_open (snd (check_urls demo_env (lit ''.'') [])) =
        filter is_open [] @ map (\<lambda>p. Open p ReadText) (scanned_paths demo_env (lit ''.''))"
    using scanner_completes_when_files_readable [of demo_env "lit ''.''" "[]"] all by blast
  have h: "length (filter is_head (snd (check_urls demo_env (lit ''.'') []))) = 3"
    by (simp add: demo_scan)
  show ?thesis using sp o1 o2 r h pf pr by simp
qed

text \<open>
  C3 as stated fails: with an unreadable \<open>a.md\<close> the scanner raises and never reaches
  \<open>b.md\<close>.
\<close>

theorem scanner_raises_on_unreadable_file:
  "scanned_paths locked_env (lit ''.'') = [lit ''./a.md'', lit ''./b.md''] \<and>
   check_urls locked_env (lit ''.'') [] =
     (Raised (OtherOSError (lit ''Permission denied'')),
      [Print (10 # lit ''Checking external links...''), Open (lit ''./a.md'') ReadText])"
  by (simp add: check_urls_def scanned_paths_def scanned_files_def locked_env_def endswith_any_def
      extensions_def path_join_def Let_def lit_def suffix_to_prefix)

section \<open>Package names\<close>

lemma split_sep_first:
  "sep \<noteq> [] \<Longrightarrow> \<exists>pieces. split_sep sep cur s = (cur @ before_first sep s) # pieces"
proof (induction sep cur s rule: split_sep.induct)
  case (1 sep cur)
  show ?case by simp
next
  case (2 sep cur c cs)
  show ?case
  proof (cases "prefix sep (c # cs)")
    case True
    with 2 show ?thesis by simp
  next
    case False
    with 2 show ?thesis by simp
  qed
qed

lemma str_split_first:
  "\<exists>pieces. str_split (strip line) (lit ''=='') = pkg_name line # pieces"
proof -
  have "lit ''=='' \<noteq> []" by (simp add: lit_def)
  then show ?thesis
    using split_sep_first [of "lit ''==''" "[]" "strip line"]
    by (simp add: str_split_def pkg_name_def)
qed

lemma before_first_no_sep: "\<not> sublist sep s \<Longrightarrow> before_first sep s = s"
  by (induction s) (auto simp: sublist_Cons_right)

lemma before_first_split:
  "sublist sep s \<Longrightarrow> \<exists>rest. s = before_first sep s @ sep @ rest"
proof (induction s)
  case Nil
  then show ?case by simp
next
  case (Cons c cs)
  show ?case
  proof (cases "prefix sep (c # cs)")
    case True
    then show ?thesis by (auto simp: prefix_def)
  next
    case False
    with Cons.prems have "sublist sep cs" by (simp add: sublist_Cons_right)
    then obtain rest where "cs = before_first sep cs @ sep @ rest" using Cons.IH by blast
    with False show ?thesis by auto
  qed
qed

lemma before_first_leftmost: "s = p @ sep @ rest \<Longrightarrow> prefix (before_first sep s) p"
proof (induction s arbitrary: p)
  case Nil
  then show ?case by simp
next
  case (Cons c cs)
  show ?case
  proof (cases "prefix sep (c # cs)")
    case True
    then show ?thesis by simp
  next
    case False
    with Cons.prems have "p \<noteq> []" by auto
    then obtain p' where p: "p = c # p'" using Cons.prems by (cases p) auto
    with Cons.prems have "cs = p' @ sep @ rest" by simp
    then have "prefix (before_first sep cs) p'" by (rule Cons.IH)
    with False p show ?thesis by simp
  qed
qed

lemma before_first_empty: "before_first sep s = [] \<longleftrightarrow> s = [] \<or> prefix sep s"
  by (cases s) auto

lemma strip_empty: "strip s = [] \<longleftrightarrow> list_all is_space s"
proof
  assume "list_all is_space s"
  then show "strip s = []" by (auto simp: strip_def list_all_iff dest: set_dropWhileD)
next
  assume "strip s = []"
  then have "dropWhile is_space (rev (dropWhile is_space s)) = []" by (simp add: strip_def)
  then have a: "\<forall>x\<in>set (dropWhile is_space s). is_space x"
    by (simp add: dropWhile_eq_Nil_conv)
  have "dropWhile is_space s = []"
  proof (rule ccontr)
    assume ne: "dropWhile is_space s \<noteq> []"
    then have "\<not> is_space (hd (dropWhile is_space s))" by (rule hd_dropWhile)
    moreover have "hd (dropWhile is_space s) \<in> set (dropWhile is_space s)" using ne by simp
    ultimately show False using a by blast
  qed
  then show "list_all is_space s" by (simp add: list_all_iff dropWhile_eq_Nil_conv)
qed

section \<open>One manifest line\<close>

lemma dep_line_eq:
  "dep_line env line tr =
     (if pkg_name line = [] then (Returned, tr)
      else case import_module env (pkg_name line) of
             Imported \<Rightarrow> (Returned, tr @ [Import (pkg_name line)])
           | ImportError \<Rightarrow>
               (Returned, tr @ [Import (pkg_name line), Print (lit ''[MISSING] '' @ pkg_name line)])
           | ImportRaises e \<Rightarrow> (Raised e, tr @ [Import (pkg_name line)]))"
proof -
  obtain pieces where "str_split (strip line) (lit ''=='') = pkg_name line # pieces"
    using str_split_first by blast
  then show ?thesis
    by (simp add: dep_line_def Let_def split: import_result.split)
qed

lemma dep_lines_append:
  "dep_lines env before tr = (Returned, tr1) \<Longrightarrow>
     dep_lines env (before @ rest) tr = dep_lines env rest tr1"
proof (induction before arbitrary: tr)
  case Nil
  then show ?case by simp
next
  case (Cons l before)
  obtain out t where r: "dep_line env l tr = (out, t)" by (cases "dep_line env l tr")
  show ?case
  proof (cases out)
    case Returned
    with Cons.prems r have "dep_lines env before t = (Returned, tr1)" by simp
    then have "dep_lines env (before @ rest) t = dep_lines env rest tr1" by (rule Cons.IH)
    with Returned r show ?thesis by simp
  next
    case (Raised e)
    with Cons.prems r show ?thesis by simp
  qed
qed

lemma dep_lines_complete:
  "\<forall>l\<in>set lines. pkg_name l = [] \<or> import_module env (pkg_name l) = Imported \<or>
       import_module env (pkg_name l) = ImportError \<Longrightarrow>
     fst (dep_lines env lines tr) = Returned \<and>
     filter is_import (snd (dep_lines env lines tr)) =
       filter is_import tr @ map Import (filter (\<lambda>n. n \<noteq> []) (map pkg_name lines)) \<and>
     filter is_print (snd (dep_lines env lines tr)) =
       filter is_print tr @
       map (\<lambda>n. Print (lit ''[MISSING] '' @ n))
         (filter (\<lambda>n. n \<noteq> [] \<and> import_module env n = ImportError) (map pkg_name lines))"
proof (induction lines arbitrary: tr)
  case Nil
  show ?case by simp
next
  case (Cons l lines)
  have rest: "\<forall>l\<in>set lines. pkg_name l = [] \<or> import_module env (pkg_name l) = Imported \<or>
       import_module env (pkg_name l) = ImportError"
    using Cons.prems by simp
  have here: "pkg_name l = [] \<or> import_module env (pkg_name l) = Imported \<or>
       import_module env (pkg_name l) = ImportError"
    using Cons.prems by simp
  show ?case
  proof (cases "pkg_name l = []")
    case True
    then have "dep_line env l tr = (Returned, tr)" by (simp add: dep_line_eq)
    with True Cons.IH [OF rest, of tr] show ?thesis by simp
  next
    case False
    with here consider "import_module env (pkg_name l) = Imported"
      | "import_module env (pkg_name l) = ImportError" by blast
    then show ?thesis
    proof cases
      case 1
      with False have "dep_line env l tr = (Returned, tr @ [Import (pkg_name l)])"
        by (simp add: dep_line_eq)
      with False 1 Cons.IH [OF rest, of "tr @ [Import (pkg_name l)]"] show ?thesis by simp
    next
      case 2
      with False have "dep_line env l tr =
          (Returned, tr @ [Import (pkg_name l), Print (lit ''[MISSING] '' @ pkg_name l)])"
        by (simp add: dep_line_eq)
      with False 2
        Cons.IH [OF rest, of "tr @ [Import (pkg_name l), Print (lit ''[MISSING] '' @ pkg_name l)]"]
      show ?thesis by simp
    qed
  qed
qed

lemma dep_line_raises:
  "fst (dep_line env line tr) = Raised e \<Longrightarrow>
     pkg_name line \<noteq> [] \<and> import_module env (pkg_name line) = ImportRaises e"
  by (auto simp: dep_line_eq split: if_splits import_result.splits)

lemma dep_lines_raises:
  "fst (dep_lines env lines tr) = Raised e \<Longrightarrow>
     \<exists>l\<in>set lines. pkg_name l \<noteq> [] \<and> import_module env (pkg_name l) = ImportRaises e"
proof (induction lines arbitrary: tr)
  case Nil
  then show ?case by simp
next
  case (Cons l lines)
  obtain out t where r: "dep_line env l tr = (out, t)" by (cases "dep_line env l tr")
  show ?case
  proof (cases out)
    case Returned
    with Cons.prems r have "fst (dep_lines env lines t) = Raised e" by simp
    then have "\<exists>l\<in>set lines. pkg_name l \<noteq> [] \<and> import_module env (pkg_name l) = ImportRaises e"
      by (rule Cons.IH)
    then show ?thesis by auto
  next
    case (Raised e')
    with Cons.prems r have "fst (dep_line env l tr) = Raised e" by simp
    then have "pkg_name l \<noteq> [] \<and> import_module env (pkg_name l) = ImportRaises e"
      by (rule dep_line_raises)
    then show ?thesis by simp
  qed
qed

lemma missing_lines_dep_lines:
  "\<forall>l\<in>set lines. pkg_name l = [] \<or> import_module env (pkg_name l) = Imported \<or>
       import_module env (pkg_name l) = ImportError \<Longrightarrow>
     filter is_missing_line (snd (dep_lines env lines tr)) =
       filter is_missing_line tr @
       map (\<lambda>n. Print (lit ''[MISSING] '' @ n))
         (filter (\<lambda>n. n \<noteq> [] \<and> import_module env n = ImportError) (map pkg_name lines))"
proof (induction lines arbitrary: tr)
  case Nil
  show ?case by simp
next
  case (Cons l lines)
  have rest: "\<forall>l\<in>set lines. pkg_name l = [] \<or> import_module env (pkg_name l) = Imported \<or>
       import_module env (pkg_name l) = ImportError"
    using Cons.prems by simp
  have here: "pkg_name l = [] \<or> import_module env (pkg_name l) = Imported \<or>
       import_module env (pkg_name l) = ImportError"
    using Cons.prems by simp
  show ?case
  proof (cases "pkg_name l = []")
    case True
    then have "dep_line env l tr = (Returned, tr)" by (simp add: dep_line_eq)
    with True Cons.IH [OF rest, of tr] show ?thesis by simp
  next
    case False
    with here consider "import_module env (pkg_name l) = Imported"
      | "import_module env (pkg_name l) = ImportError" by blast
    then show ?thesis
    proof cases
      case 1
      with False have "dep_line env l tr = (Returned, tr @ [Import (pkg_name l)])"
        by (simp add: dep_line_eq)
      with False 1 Cons.IH [OF rest, of "tr @ [Import (pkg_name l)]"] show ?thesis by simp
    next
      case 2
      with False have "dep_line env l tr =
          (Returned, tr @ [Import (pkg_name l), Print (lit ''[MISSING] '' @ pkg_name l)])"
        by (simp add: dep_line_eq)
      with False 2
        Cons.IH [OF rest, of "tr @ [Import (pkg_name l), Print (lit ''[MISSING] '' @ pkg_name l)]"]
      show ?thesis by simp
    qed
  qed
qed

lemma check_dependencies_yielded:
  assumes "\<forall>l\<in>set lines. pkg_name l = [] \<or> import_module env (pkg_name l) = Imported \<or>
       import_module env (pkg_name l) = ImportError"
  shows "open_file env (lit ''requirements.txt'') Strict = Opened lines r \<Longrightarrow>
     fst (check_dependencies env tr) = (case r of None \<Rightarrow> Returned | Some e \<Rightarrow> Raised e) \<and>
     filter is_import (snd (check_dependencies env tr)) =
       filter is_import tr @ map Import (filter (\<lambda>n. n \<noteq> []) (map pkg_name lines)) \<and>
     filter is_missing_line (snd (check_dependencies env tr)) =
       filter is_missing_line tr @
       map (\<lambda>n. Print (lit ''[MISSING] '' @ n))
         (filter (\<lambda>n. n \<noteq> [] \<and> import_module env n = ImportError) (map pkg_name lines))"
proof -
  assume o: "open_file env (lit ''requirements.txt'') Strict = Opened lines r"
  let ?P = "tr @ [Print (10 # lit ''Checking dependencies...''), Open (lit ''requirements.txt'') ReadText]"
  obtain t where d: "dep_lines env lines ?P = (Returned, t)"
    using dep_lines_complete [OF assms, of ?P] by (cases "dep_lines env lines ?P") simp
  have c: "check_dependencies env tr = (case r of None \<Rightarrow> Returned | Some e \<Rightarrow> Raised e, t)"
    using o d by (cases r) (simp_all add: check_dependencies_def Let_def)
  have i: "filter is_import t =
      filter is_import ?P @ map Import (filter (\<lambda>n. n \<noteq> []) (map pkg_name lines))"
    using dep_lines_complete [OF assms, of ?P] d by simp
  have m: "filter is_missing_line t =
      filter is_missing_line ?P @
      map (\<lambda>n. Print (lit ''[MISSING] '' @ n))
        (filter (\<lambda>n. n \<noteq> [] \<and> import_module env n = ImportError) (map pkg_name lines))"
    using missing_lines_dep_lines [OF assms, of ?P] d by simp
  have h: "\<not> prefix (lit ''[MISSING] '') (10 # lit ''Checking dependencies...'')"
    by (simp add: lit_def)
  show ?thesis using c i m h by simp
qed

lemma strip_demo:
  "strip (lit ''name>=1.0'' @ [10]) = lit ''name>=1.0'' \<and>
   strip (lit ''==1.0'' @ [10]) = lit ''==1.0'' \<and>
   strip (lit ''  '' @ [10]) = [] \<and>
   strip (lit ''requests==2.31.0'' @ [10]) = lit ''requests==2.31.0'' \<and>
   strip (lit ''not_a_real_pkg_xyz'' @ [10]) = lit ''not_a_real_pkg_xyz'' \<and>
   strip (lit ''brokenpkg'' @ [10]) = lit ''brokenpkg'' \<and>
   strip (lit ''zzz'' @ [10]) = lit ''zzz''"
  by (simp add: strip_def lit_def is_space_def)

lemma pkg_name_demo:
  "pkg_name (lit ''name>=1.0'' @ [10]) = lit ''name>=1.0'' \<and>
   pkg_name (lit ''==1.0'' @ [10]) = [] \<and>
   pkg_name (lit ''  '' @ [10]) = [] \<and>
   pkg_name (lit ''requests==2.31.0'' @ [10]) = lit ''requests'' \<and>
   pkg_name (lit ''not_a_real_pkg_xyz'' @ [10]) = lit ''not_a_real_pkg_xyz'' \<and>
   pkg_name (lit ''brokenpkg'' @ [10]) = lit ''brokenpkg'' \<and>
   pkg_name (lit ''zzz'' @ [10]) = lit ''zzz''"
  by (simp add: pkg_name_def strip_demo) (simp add: lit_def)

text \<open>
  C10. A stripped line without \<open>==\<close> is, when not empty, the module name of the import
  attempt, whatever other version separator it holds. A line whose stripped text before
  the first \<open>==\<close> is empty is skipped with no import attempt and no output; these are
  exactly the lines whose stripped text is empty or begins with \<open>==\<close>, and the stripped
  text is empty exactly when the line is all whitespace.
\<close>

theorem only_double_equals_is_a_separator:
  "(\<not> sublist (lit ''=='') (strip line) \<and> strip line \<noteq> [] \<longrightarrow>
      pkg_name line = strip line \<and>
      (\<exists>out evs. dep_line env line tr = (out, tr @ Import (strip line) # evs)) \<and>
      filter is_import (snd (dep_line env line tr)) = filter is_import tr @ [Import (strip line)]) \<and>
   (strip line = [] \<or> prefix (lit ''=='') (strip line) \<longrightarrow> dep_line env line tr = (Returned, tr)) \<and>
   (pkg_name line = [] \<longleftrightarrow> strip line = [] \<or> prefix (lit ''=='') (strip line)) \<and>
   (strip line = [] \<longleftrightarrow> list_all is_space line)"
proof (intro conjI impI)
  assume a: "\<not> sublist (lit ''=='') (strip line) \<and> strip line \<noteq> []"
  then show n: "pkg_name line = strip line" by (simp add: pkg_name_def before_first_no_sep)
  with a show "\<exists>out evs. dep_line env line tr = (out, tr @ Import (strip line) # evs)"
    by (cases "import_module env (strip line)") (simp_all add: dep_line_eq)
  from a n show "filter is_import (snd (dep_line env line tr)) =
      filter is_import tr @ [Import (strip line)]"
    by (cases "import_module env (strip line)") (simp_all add: dep_line_eq)
next
  assume "strip line = [] \<or> prefix (lit ''=='') (strip line)"
  then have "pkg_name line = []" by (simp add: pkg_name_def before_first_empty)
  then show "dep_line env line tr = (Returned, tr)" by (simp add: dep_line_eq)
next
  show "pkg_name line = [] \<longleftrightarrow> strip line = [] \<or> prefix (lit ''=='') (strip line)"
    by (simp add: pkg_name_def before_first_empty)
next
  show "strip line = [] \<longleftrightarrow> list_all is_space line" by (rule strip_empty)
qed

theorem only_double_equals_is_a_separator_witness:
  "\<not> sublist (lit ''=='') (strip (lit ''name>=1.0'' @ [10])) \<and>
   strip (lit ''name>=1.0'' @ [10]) = lit ''name>=1.0'' \<and>
   filter is_import (snd (dep_line demo_env (lit ''name>=1.0'' @ [10]) [])) =
     [Import (lit ''name>=1.0'')] \<and>
   prefix (lit ''=='') (strip (lit ''==1.0'' @ [10])) \<and>
   dep_line demo_env (lit ''==1.0'' @ [10]) [] = (Returned, []) \<and>
   strip (lit ''  '' @ [10]) = [] \<and>
   dep_line demo_env (lit ''  '' @ [10]) [] = (Returned, [])"
proof -
  have s1: "strip (lit ''name>=1.0'' @ [10]) = lit ''name>=1.0''"
    and s2: "strip (lit ''==1.0'' @ [10]) = lit ''==1.0''"
    and s3: "strip (lit ''  '' @ [10]) = []"
    using strip_demo by simp_all
  have n1: "\<not> sublist (lit ''=='') (strip (lit ''name>=1.0'' @ [10])) \<and>
      strip (lit ''name>=1.0'' @ [10]) \<noteq> []"
    unfolding s1 by (simp add: lit_def sublist_Cons_right)
  have p2: "prefix (lit ''=='') (strip (lit ''==1.0'' @ [10]))"
    unfolding s2 by (simp add: lit_def)
  have "filter is_import (snd (dep_line demo_env (lit ''name>=1.0'' @ [10]) [])) =
      filter is_import [] @ [Import (strip (lit ''name>=1.0'' @ [10]))]"
    using only_double_equals_is_a_separator [of "lit ''name>=1.0'' @ [10]" demo_env "[]"] n1
    by blast
  then have i1: "filter is_import (snd (dep_line demo_env (lit ''name>=1.0'' @ [10]) [])) =
     [Import (lit ''name>=1.0'')]"
    by (simp add: s1)
  have d2: "dep_line demo_env (lit ''==1.0'' @ [10]) [] = (Returned, [])"
    using only_double_equals_is_a_separator [of "lit ''==1.0'' @ [10]" demo_env "[]"] p2
    by blast
  have d3: "dep_line demo_env (lit ''  '' @ [10]) [] = (Returned, [])"
    using only_double_equals_is_a_separator [of "lit ''  '' @ [10]" demo_env "[]"] s3
    by blast
  show ?thesis using n1 s1 i1 p2 d2 s3 d3 by simp
qed

text \<open>
  C4, amended. The package name of a line is the first piece of the stripped line cut
  at \<open>==\<close>: the text before the leftmost \<open>==\<close>. For a line whose name is not empty,
  the loop body attempts the import of that name; on \<open>ImportError\<close> it prints exactly
  one \<open>[MISSING] name\<close> line and returns normally, so the loop goes on; for an importable
  package it prints nothing. When no import raises anything but \<open>ImportError\<close>, the
  loop reaches every line that the read of the manifest yields: it attempts their
  non-empty names, in order, prints one line for each one that is missing, and then
  returns normally if the manifest was read to its end, and raises the exception of the
  read otherwise.
\<close>

theorem named_lines_are_imported:
  "(\<exists>pieces. str_split (strip line) (lit ''=='') = pkg_name line # pieces) \<and>
   (sublist (lit ''=='') (strip line) \<longrightarrow>
      (\<exists>rest. strip line = pkg_name line @ lit ''=='' @ rest)) \<and>
   (strip line = p @ lit ''=='' @ rest \<longrightarrow> prefix (pkg_name line) p) \<and>
   (pkg_name line \<noteq> [] \<and> import_module env (pkg_name line) = ImportError \<longrightarrow>
      dep_line env line tr =
        (Returned, tr @ [Import (pkg_name line), Print (lit ''[MISSING] '' @ pkg_name line)])) \<and>
   (pkg_name line \<noteq> [] \<and> import_module env (pkg_name line) = Imported \<longrightarrow>
      dep_line env line tr = (Returned, tr @ [Import (pkg_name line)])) \<and>
   ((\<forall>l\<in>set lines. pkg_name l = [] \<or> import_module env (pkg_name l) = Imported \<or>
        import_module env (pkg_name l) = ImportError) \<longrightarrow>
      fst (dep_lines env lines tr) = Returned \<and>
      filter is_import (snd (dep_lines env lines tr)) =
        filter is_import tr @ map Import (filter (\<lambda>n. n \<noteq> []) (map pkg_name lines)) \<and>
      filter is_print (snd (dep_lines env lines tr)) =
        filter is_print tr @
        map (\<lambda>n. Print (lit ''[MISSING] '' @ n))
          (filter (\<lambda>n. n \<noteq> [] \<and> import_module env n = ImportError) (map pkg_name lines))) \<and>
   (open_file env (lit ''requirements.txt'') Strict = Opened lines r \<and>
    (\<forall>l\<in>set lines. pkg_name l = [] \<or> import_module env (pkg_name l) = Imported \<or>
        import_module env (pkg_name l) = ImportError) \<longrightarrow>
      fst (check_dependencies env tr) = (case r of None \<Rightarrow> Returned | Some e \<Rightarrow> Raised e) \<and>
      filter is_import (snd (check_dependencies env tr)) =
        filter is_import tr @ map Import (filter (\<lambda>n. n \<noteq> []) (map pkg_name lines)) \<and>
      filter is_missing_line (snd (check_dependencies env tr)) =
        filter is_missing_line tr @
        map (\<lambda>n. Print (lit ''[MISSING] '' @ n))
          (filter (\<lambda>n. n \<noteq> [] \<and> import_module env n = ImportError) (map pkg_name lines)))"
proof (intro conjI impI)
  assume b: "open_file env (lit ''requirements.txt'') Strict = Opened lines r \<and>
    (\<forall>l\<in>set lines. pkg_name l = [] \<or> import_module env (pkg_name l) = Imported \<or>
        import_module env (pkg_name l) = ImportError)"
  then have a: "\<forall>l\<in>set lines. pkg_name l = [] \<or> import_module env (pkg_name l) = Imported \<or>
        import_module env (pkg_name l) = ImportError" by simp
  note D = check_dependencies_yielded [OF a, of r tr]
  from b D show "fst (check_dependencies env tr) = (case r of None \<Rightarrow> Returned | Some e \<Rightarrow> Raised e)"
    by simp
  from b D show "filter is_import (snd (check_dependencies env tr)) =
        filter is_import tr @ map Import (filter (\<lambda>n. n \<noteq> []) (map pkg_name lines))"
    by simp
  from b D show "filter is_missing_line (snd (check_dependencies env tr)) =
        filter is_missing_line tr @
        map (\<lambda>n. Print (lit ''[MISSING] '' @ n))
          (filter (\<lambda>n. n \<noteq> [] \<and> import_module env n = ImportError) (map pkg_name lines))"
    by simp
next
  show "\<exists>pieces. str_split (strip line) (lit ''=='') = pkg_name line # pieces"
    by (rule str_split_first)
next
  assume "sublist (lit ''=='') (strip line)"
  then show "\<exists>rest. strip line = pkg_name line @ lit ''=='' @ rest"
    unfolding pkg_name_def by (rule before_first_split)
next
  assume "strip line = p @ lit ''=='' @ rest"
  then show "prefix (pkg_name line) p"
    unfolding pkg_name_def by (rule before_first_leftmost)
next
  assume "pkg_name line \<noteq> [] \<and> import_module env (pkg_name line) = ImportError"
  then show "dep_line env line tr =
        (Returned, tr @ [Import (pkg_name line), Print (lit ''[MISSING] '' @ pkg_name line)])"
    by (simp add: dep_line_eq)
next
  assume "pkg_name line \<noteq> [] \<and> import_module env (pkg_name line) = Imported"
  then show "dep_line env line tr = (Returned, tr @ [Import (pkg_name line)])"
    by (simp add: dep_line_eq)
next
  assume a: "\<forall>l\<in>set lines. pkg_name l = [] \<or> import_module env (pkg_name l) = Imported \<or>
        import_module env (pkg_name l) = ImportError"
  note C = dep_lines_complete [OF a, of tr]
  from C show "fst (dep_lines env lines tr) = Returned" by simp
  from C show "filter is_import (snd (dep_lines env lines tr)) =
        filter is_import tr @ map Import (filter (\<lambda>n. n \<noteq> []) (map pkg_name lines))" by simp
  from C show "filter is_print (snd (dep_lines env lines tr)) =
        filter is_print tr @
        map (\<lambda>n. Print (lit ''[MISSING] '' @ n))
          (filter (\<lambda>n. n \<noteq> [] \<and> import_module env n = ImportError) (map pkg_name lines))" by simp
qed

theorem named_lines_are_imported_witness:
  "pkg_name (lit ''requests==2.31.0'' @ [10]) = lit ''requests'' \<and>
   import_module demo_env (lit ''requests'') = Imported \<and>
   dep_line demo_env (lit ''requests==2.31.0'' @ [10]) [] = (Returned, [Import (lit ''requests'')]) \<and>
   pkg_name (lit ''not_a_real_pkg_xyz'' @ [10]) = lit ''not_a_real_pkg_xyz'' \<and>
   import_module demo_env (lit ''not_a_real_pkg_xyz'') = ImportError \<and>
   dep_line demo_env (lit ''not_a_real_pkg_xyz'' @ [10]) [] =
     (Returned, [Import (lit ''not_a_real_pkg_xyz''), Print (lit ''[MISSING] not_a_real_pkg_xyz'')]) \<and>
   filter is_print
     (snd (dep_lines demo_env [lit ''requests==2.31.0'' @ [10], lit ''not_a_real_pkg_xyz'' @ [10]] [])) =
     [Print (lit ''[MISSING] not_a_real_pkg_xyz'')] \<and>
   open_file undecodable_env (lit ''requirements.txt'') Strict =
     Opened [lit ''not_a_real_pkg_xyz'' @ [10]] (Some UnicodeDecodeError) \<and>
   fst (check_dependencies undecodable_env []) = Raised UnicodeDecodeError \<and>
   filter is_import (snd (check_dependencies undecodable_env [])) =
     [Import (lit ''not_a_real_pkg_xyz'')] \<and>
   filter is_missing_line (snd (check_dependencies undecodable_env [])) =
     [Print (lit ''[MISSING] not_a_real_pkg_xyz'')]"
proof -
  have uo: "open_file undecodable_env (lit ''requirements.txt'') Strict =
     Opened [lit ''not_a_real_pkg_xyz'' @ [10]] (Some UnicodeDecodeError)"
    by (simp add: undecodable_env_def)
  have ui: "import_module undecodable_env (lit ''not_a_real_pkg_xyz'') = ImportError"
    by (simp add: undecodable_env_def demo_env_def lit_def)
  let ?l1 = "lit ''requests==2.31.0'' @ [10]"
  let ?l2 = "lit ''not_a_real_pkg_xyz'' @ [10]"
  have n1: "pkg_name ?l1 = lit ''requests''" and n2: "pkg_name ?l2 = lit ''not_a_real_pkg_xyz''"
    using pkg_name_demo by simp_all
  have i1: "import_module demo_env (lit ''requests'') = Imported"
    by (simp add: demo_env_def)
  have i2: "import_module demo_env (lit ''not_a_real_pkg_xyz'') = ImportError"
    by (simp add: demo_env_def lit_def)
  have ne: "lit ''requests'' \<noteq> [] \<and> lit ''not_a_real_pkg_xyz'' \<noteq> []" by (simp add: lit_def)
  note T1 = named_lines_are_imported [of ?l1 _ _ demo_env "[]" "[?l1, ?l2]"]
  note T2 = named_lines_are_imported [of ?l2 _ _ demo_env "[]" "[]"]
  have d1: "dep_line demo_env ?l1 [] = (Returned, [Import (lit ''requests'')])"
    using T1 n1 i1 ne by simp
  have d2: "dep_line demo_env ?l2 [] =
     (Returned, [Import (lit ''not_a_real_pkg_xyz''), Print (lit ''[MISSING] not_a_real_pkg_xyz'')])"
    using T2 n2 i2 ne by (simp add: lit_def)
  have "filter is_print (snd (dep_lines demo_env [?l1, ?l2] [])) =
      filter is_print [] @
        map (\<lambda>n. Print (lit ''[MISSING] '' @ n))
          (filter (\<lambda>n. n \<noteq> [] \<and> import_module demo_env n = ImportError) (map pkg_name [?l1, ?l2]))"
    using T1 n1 n2 i1 i2 by simp
  then have p: "filter is_print (snd (dep_lines demo_env [?l1, ?l2] [])) =
     [Print (lit ''[MISSING] not_a_real_pkg_xyz'')]"
    using n1 n2 i1 i2 ne by (simp add: lit_def)
  note T3 = named_lines_are_imported [of ?l2 _ _ undecodable_env "[]" "[?l2]" "Some UnicodeDecodeError"]
  have u: "fst (check_dependencies undecodable_env []) = Raised UnicodeDecodeError \<and>
      filter is_import (snd (check_dependencies undecodable_env [])) =
        [Import (lit ''not_a_real_pkg_xyz'')] \<and>
      filter is_missing_line (snd (check_dependencies undecodable_env [])) =
        [Print (lit ''[MISSING] not_a_real_pkg_xyz'')]"
    using T3 uo ui n2 ne by (simp add: lit_def)
  show ?thesis using n1 i1 d1 n2 i2 d2 p uo u by simp
qed

text \<open>
  C4 as stated fails: the line \<open>==1.0\<close> is not blank, yet no import is attempted for
  it; and after the import of \<open>brokenpkg\<close> has raised, the line \<open>zzz\<close> is never reached.
\<close>

theorem separator_first_line_not_imported:
  "strip (lit ''==1.0'' @ [10]) = lit ''==1.0'' \<and>
   dep_line broken_env (lit ''==1.0'' @ [10]) [] = (Returned, []) \<and>
   dep_lines broken_env [lit ''==1.0'' @ [10], lit ''brokenpkg'' @ [10], lit ''zzz'' @ [10]] [] =
     (Raised (NonImportError (lit ''boom'')), [Import (lit ''brokenpkg'')])"
  using strip_demo pkg_name_demo
  by (simp add: dep_line_eq broken_env_def) (simp add: lit_def)

section \<open>The run as a whole\<close>

lemma heads_check_imports: "filter is_head (check_imports env tr) = filter is_head tr"
  by (simp add: check_imports_def Let_def split: launch_result.split)

lemma main_decomposed:
  "main env =
     (case check_urls env (lit ''.'') [] of
        (Raised e, t2) \<Rightarrow> (Raised e, Print start_banner # check_imports env [] @ t2)
      | (Returned, t2) \<Rightarrow>
          (case check_dependencies env [] of
             (Raised e, t3) \<Rightarrow> (Raised e, Print start_banner # check_imports env [] @ t2 @ t3)
           | (Returned, t3) \<Rightarrow>
               (Returned,
                Print start_banner # check_imports env [] @ t2 @ t3 @ [Print completion_banner])))"
proof -
  let ?L = "Print start_banner # check_imports env []"
  have L: "check_imports env [Print start_banner] = ?L"
    using check_imports_after [of env "[Print start_banner]" "[]"] by simp
  have h: "filter is_head ?L = []"
    using heads_check_imports [of env "[]"] by simp
  obtain o2 t2 where u: "check_urls env (lit ''.'') [] = (o2, t2)"
    by (cases "check_urls env (lit ''.'') []")
  have u': "check_urls env (lit ''.'') ?L = (o2, ?L @ t2)"
    using check_urls_after [OF h, of env "lit ''.''" "[]"] u by simp
  obtain o3 t3 where d: "check_dependencies env [] = (o3, t3)"
    by (cases "check_dependencies env []")
  have d': "check_dependencies env (Print start_banner # check_imports env [] @ t2) =
      (o3, Print start_banner # check_imports env [] @ t2 @ t3)"
    using check_dependencies_after [of env "?L @ t2" "[]"] d by simp
  show ?thesis
  proof (cases o2)
    case (Raised e)
    then show ?thesis by (simp add: main_def Let_def L u u')
  next
    case Returned
    then show ?thesis
      by (cases o3) (simp_all add: main_def Let_def L u u' d d')
  qed
qed

lemma probe_lint_free: "probe (env\<lparr>subprocess_run := r\<rparr>) url tr = probe env url tr"
  by (simp add: probe_def)

lemma probe_all_lint_free: "probe_all (env\<lparr>subprocess_run := r\<rparr>) urls tr = probe_all env urls tr"
  by (induction urls arbitrary: tr) (simp_all add: probe_lint_free)

lemma scan_lines_lint_free:
  "scan_lines (env\<lparr>subprocess_run := r\<rparr>) lines tr = scan_lines env lines tr"
  by (induction lines arbitrary: tr) (simp_all add: scan_line_def probe_all_lint_free)

lemma scan_files_lint_free:
  "scan_files (env\<lparr>subprocess_run := r\<rparr>) root files tr = scan_files env root files tr"
  by (induction files arbitrary: tr)
    (simp_all add: scan_lines_lint_free Let_def split: open_result.split option.split)

lemma scan_dirs_lint_free:
  "scan_dirs (env\<lparr>subprocess_run := r\<rparr>) walk tr = scan_dirs env walk tr"
proof (induction walk arbitrary: tr)
  case Nil
  show ?case by simp
next
  case (Cons d walk)
  obtain root dirs files where d: "d = (root, dirs, files)" by (cases d) auto
  show ?case
    by (simp add: d scan_files_lint_free Cons split: prod.split outcome.split)
qed

lemma check_urls_lint_free:
  "check_urls (env\<lparr>subprocess_run := r\<rparr>) base tr = check_urls env base tr"
  by (simp add: check_urls_def scan_dirs_lint_free)

lemma dep_lines_lint_free:
  "dep_lines (env\<lparr>subprocess_run := r\<rparr>) lines tr = dep_lines env lines tr"
proof (induction lines arbitrary: tr)
  case Nil
  show ?case by simp
next
  case (Cons l lines)
  have "dep_line (env\<lparr>subprocess_run := r\<rparr>) l tr = dep_line env l tr"
    by (simp add: dep_line_eq)
  then show ?case by (simp add: Cons split: prod.split outcome.split)
qed

lemma check_dependencies_lint_free:
  "check_dependencies (env\<lparr>subprocess_run := r\<rparr>) tr = check_dependencies env tr"
  by (simp add: check_dependencies_def dep_lines_lint_free Let_def split: open_result.split)

lemma scanner_line_not_late:
  "scanner_line s \<Longrightarrow> \<not> prefix (lit ''[MISSING] '') s \<and> s \<noteq> completion_banner"
  by (auto simp: scanner_line_def completion_banner_def lit_def prefix_def)

lemma scan_event_early:
  "scan_event paths ev \<Longrightarrow> \<not> is_missing_line ev \<and> \<not> is_import ev \<and> ev \<noteq> Print completion_banner"
  using scanner_line_not_late by (auto simp: scan_event_def)

lemma check_urls_early:
  "ev \<in> set (snd (check_urls env base [])) \<Longrightarrow>
     \<not> is_missing_line ev \<and> \<not> is_import ev \<and> ev \<noteq> Print completion_banner"
  using check_urls_events [of ev env base "[]"] scan_event_early by auto

lemma check_imports_early:
  "ev \<in> set (Print start_banner # check_imports env []) \<Longrightarrow>
     \<not> is_missing_line ev \<and> \<not> is_import ev \<and> ev \<noteq> Print completion_banner"
  by (auto simp: check_imports_def Let_def start_banner_def completion_banner_def lit_def prefix_def
      split: launch_result.splits)

lemma dep_line_no_banner:
  "Print completion_banner \<in> set (snd (dep_line env line tr)) \<Longrightarrow> Print completion_banner \<in> set tr"
  by (auto simp: dep_line_eq completion_banner_def lit_def split: if_splits import_result.splits)

lemma dep_lines_no_banner:
  "Print completion_banner \<in> set (snd (dep_lines env lines tr)) \<Longrightarrow> Print completion_banner \<in> set tr"
proof (induction lines arbitrary: tr)
  case Nil
  then show ?case by simp
next
  case (Cons l lines)
  obtain out t where r: "dep_line env l tr = (out, t)" by (cases "dep_line env l tr")
  have t: "Print completion_banner \<in> set t \<Longrightarrow> Print completion_banner \<in> set tr"
    using dep_line_no_banner [of env l tr] r by simp
  show ?case
  proof (cases out)
    case Returned
    with Cons.prems r have "Print completion_banner \<in> set (snd (dep_lines env lines t))" by simp
    then have "Print completion_banner \<in> set t" by (rule Cons.IH)
    then show ?thesis by (rule t)
  next
    case (Raised e)
    with Cons.prems r have "Print completion_banner \<in> set t" by simp
    then show ?thesis by (rule t)
  qed
qed

lemma check_dependencies_no_banner:
  "Print completion_banner \<notin> set (snd (check_dependencies env []))"
proof
  assume a: "Print completion_banner \<in> set (snd (check_dependencies env []))"
  let ?P = "[Print (10 # lit ''Checking dependencies...''), Open (lit ''requirements.txt'') ReadText]"
  have "Print completion_banner \<in> set ?P"
  proof (cases "open_file env (lit ''requirements.txt'') Strict")
    case (OpenRaises e)
    with a show ?thesis by (simp add: check_dependencies_def Let_def)
  next
    case (Opened lines r)
    obtain out t where d: "dep_lines env lines ?P = (out, t)" by (cases "dep_lines env lines ?P")
    have "snd (check_dependencies env []) = t"
      using Opened d by (cases out; cases r) (simp_all add: check_dependencies_def Let_def)
    with a d have "Print completion_banner \<in> set (snd (dep_lines env lines ?P))" by simp
    then show ?thesis by (rule dep_lines_no_banner)
  qed
  then show False by (simp add: completion_banner_def lit_def)
qed

lemma check_dependencies_raises:
  assumes "fst (check_dependencies env tr) = Raised e"
  shows "file_raises env (lit ''requirements.txt'') Strict e \<or>
     (\<exists>lines r l. open_file env (lit ''requirements.txt'') Strict = Opened lines r \<and>
        l \<in> set lines \<and> pkg_name l \<noteq> [] \<and> import_module env (pkg_name l) = ImportRaises e)"
proof (cases "open_file env (lit ''requirements.txt'') Strict")
  case (OpenRaises e')
  with assms show ?thesis by (simp add: check_dependencies_def file_raises_def Let_def)
next
  case (Opened lines r)
  let ?P = "tr @ [Print (10 # lit ''Checking dependencies...''), Open (lit ''requirements.txt'') ReadText]"
  obtain out t where d: "dep_lines env lines ?P = (out, t)" by (cases "dep_lines env lines ?P")
  show ?thesis
  proof (cases out)
    case (Raised e')
    with assms Opened d have "fst (dep_lines env lines ?P) = Raised e"
      by (simp add: check_dependencies_def Let_def)
    then have "\<exists>l\<in>set lines. pkg_name l \<noteq> [] \<and> import_module env (pkg_name l) = ImportRaises e"
      by (rule dep_lines_raises)
    with Opened show ?thesis by blast
  next
    case Returned
    with assms Opened d have "r = Some e"
      by (cases r) (simp_all add: check_dependencies_def Let_def)
    with Opened show ?thesis by (simp add: file_raises_def)
  qed
qed

lemma check_dependencies_opened:
  "open_file env (lit ''requirements.txt'') Strict = Opened lines r \<Longrightarrow>
     check_dependencies env [] =
       (case dep_lines env lines [] of
          (Raised e, t) \<Rightarrow>
            (Raised e, [Print (10 # lit ''Checking dependencies...''),
                        Open (lit ''requirements.txt'') ReadText] @ t)
        | (Returned, t) \<Rightarrow>
            (case r of
               Some e \<Rightarrow>
                 (Raised e, [Print (10 # lit ''Checking dependencies...''),
                             Open (lit ''requirements.txt'') ReadText] @ t)
             | None \<Rightarrow>
                 (Returned, [Print (10 # lit ''Checking dependencies...''),
                             Open (lit ''requirements.txt'') ReadText] @ t)))"
proof -
  assume o: "open_file env (lit ''requirements.txt'') Strict = Opened lines r"
  let ?P = "[Print (10 # lit ''Checking dependencies...''), Open (lit ''requirements.txt'') ReadText]"
  obtain out t where d: "dep_lines env lines [] = (out, t)" by (cases "dep_lines env lines []")
  then have d0: "dep_lines env lines ?P = (out, ?P @ t)"
    using dep_lines_after [of env lines ?P "[]"] by simp
  show ?thesis
    using o d d0 by (cases out; cases r) (simp_all add: check_dependencies_def Let_def)
qed

lemma exit_status_simps: "exit_status Returned = 0" "exit_status (Raised e) = 1"
  by (simp_all add: exit_status_def)

text \<open>
  C9. When the import of a named line raises something other than \<open>ImportError\<close>, the
  loop body raises it right after the import attempt. In a run that gets that far (the
  scanner returned, the manifest opened, the lines before returned normally), the
  exception leaves \<open>main\<close>: the trace ends with that import attempt, whatever lines
  follow in the manifest, the exit status is 1 and the completion banner is not printed.
\<close>

theorem other_import_exceptions_propagate:
  "(pkg_name line \<noteq> [] \<and> import_module env (pkg_name line) = ImportRaises e \<longrightarrow>
      dep_line env line tr = (Raised e, tr @ [Import (pkg_name line)])) \<and>
   (check_urls env (lit ''.'') [] = (Returned, t2) \<and>
    open_file env (lit ''requirements.txt'') Strict = Opened (before @ line # rest) r \<and>
    dep_lines env before [] = (Returned, t) \<and>
    pkg_name line \<noteq> [] \<and> import_module env (pkg_name line) = ImportRaises e \<longrightarrow>
      main env =
        (Raised e,
         Print start_banner # check_imports env [] @ t2 @
         [Print (10 # lit ''Checking dependencies...''), Open (lit ''requirements.txt'') ReadText] @
         t @ [Import (pkg_name line)]) \<and>
      exit_status (fst (main env)) = 1 \<and>
      Print completion_banner \<notin> set (snd (main env)))"
proof (intro conjI impI)
  assume "pkg_name line \<noteq> [] \<and> import_module env (pkg_name line) = ImportRaises e"
  then show "dep_line env line tr = (Raised e, tr @ [Import (pkg_name line)])"
    by (simp add: dep_line_eq)
next
  assume a: "check_urls env (lit ''.'') [] = (Returned, t2) \<and>
    open_file env (lit ''requirements.txt'') Strict = Opened (before @ line # rest) r \<and>
    dep_lines env before [] = (Returned, t) \<and>
    pkg_name line \<noteq> [] \<and> import_module env (pkg_name line) = ImportRaises e"
  then have "dep_line env line t = (Raised e, t @ [Import (pkg_name line)])"
    by (simp add: dep_line_eq)
  then have "dep_lines env (line # rest) t = (Raised e, t @ [Import (pkg_name line)])"
    by simp
  with a have "dep_lines env (before @ line # rest) [] = (Raised e, t @ [Import (pkg_name line)])"
    by (simp add: dep_lines_append)
  moreover have "open_file env (lit ''requirements.txt'') Strict = Opened (before @ line # rest) r"
    using a by simp
  ultimately have d: "check_dependencies env [] =
      (Raised e, [Print (10 # lit ''Checking dependencies...''),
                  Open (lit ''requirements.txt'') ReadText] @ t @ [Import (pkg_name line)])"
    by (simp add: check_dependencies_opened)
  from a d show m: "main env =
        (Raised e,
         Print start_banner # check_imports env [] @ t2 @
         [Print (10 # lit ''Checking dependencies...''), Open (lit ''requirements.txt'') ReadText] @
         t @ [Import (pkg_name line)])"
    by (simp add: main_decomposed)
  from m show "exit_status (fst (main env)) = 1" by (simp add: exit_status_simps)
  have 1: "Print completion_banner \<notin> set (Print start_banner # check_imports env [])"
    using check_imports_early [of "Print completion_banner" env] by blast
  have 2: "Print completion_banner \<notin> set t2"
    using check_urls_early [of "Print completion_banner" env "lit ''.''"] a by auto
  have 3: "Print completion_banner \<notin> set ([Print (10 # lit ''Checking dependencies...''),
      Open (lit ''requirements.txt'') ReadText] @ t @ [Import (pkg_name line)])"
    using check_dependencies_no_banner [of env] d by simp
  from m 1 2 3 show "Print completion_banner \<notin> set (snd (main env))" by simp
qed

lemma broken_scan:
  "check_urls broken_env (lit ''.'') [] = (Returned, [Print (10 # lit ''Checking external links...'')])"
  by (simp add: check_urls_def broken_env_def endswith_any_def extensions_def lit_def
      suffix_to_prefix)

theorem other_import_exceptions_propagate_witness:
  "pkg_name (lit ''brokenpkg'' @ [10]) = lit ''brokenpkg'' \<and>
   import_module broken_env (lit ''brokenpkg'') = ImportRaises (NonImportError (lit ''boom'')) \<and>
   open_file broken_env (lit ''requirements.txt'') Strict =
     Opened ([lit ''==1.0'' @ [10]] @ (lit ''brokenpkg'' @ [10]) # [lit ''zzz'' @ [10]]) None \<and>
   main broken_env =
     (Raised (NonImportError (lit ''boom'')),
      [Print start_banner, Print (lit ''Checking imports...''), Run [lit ''flake8'', lit ''.''],
       Print (10 # lit ''Checking external links...''),
       Print (10 # lit ''Checking dependencies...''), Open (lit ''requirements.txt'') ReadText,
       Import (lit ''brokenpkg'')]) \<and>
   exit_status (fst (main broken_env)) = 1"
proof -
  let ?line = "lit ''brokenpkg'' @ [10]"
  have n: "pkg_name ?line = lit ''brokenpkg''" using pkg_name_demo by simp
  have ne: "lit ''brokenpkg'' \<noteq> []" by (simp add: lit_def)
  have i: "import_module broken_env (lit ''brokenpkg'') = ImportRaises (NonImportError (lit ''boom''))"
    by (simp add: broken_env_def)
  have o: "open_file broken_env (lit ''requirements.txt'') Strict =
      Opened ([lit ''==1.0'' @ [10]] @ ?line # [lit ''zzz'' @ [10]]) None"
    by (simp add: broken_env_def)
  have b: "dep_lines broken_env [lit ''==1.0'' @ [10]] [] = (Returned, [])"
    using pkg_name_demo by (simp add: dep_line_eq)
  have c: "check_imports broken_env [] = [Print (lit ''Checking imports...''), Run [lit ''flake8'', lit ''.'']]"
    by (simp add: check_imports_def broken_env_def)
  note T = other_import_exceptions_propagate [of ?line broken_env "NonImportError (lit ''boom'')" "[]"
      "[Print (10 # lit ''Checking external links...'')]" "[lit ''==1.0'' @ [10]]" "[lit ''zzz'' @ [10]]" None "[]"]
  have "main broken_env =
     (Raised (NonImportError (lit ''boom'')),
      Print start_banner # check_imports broken_env [] @ [Print (10 # lit ''Checking external links...'')] @
      [Print (10 # lit ''Checking dependencies...''), Open (lit ''requirements.txt'') ReadText] @
      [] @ [Import (pkg_name ?line)]) \<and> exit_status (fst (main broken_env)) = 1"
    using T n ne i o b broken_scan by (simp add: exit_status_simps)
  then show ?thesis using n i o c by (simp add: exit_status_simps)
qed

text \<open>
  C2, amended. When the manifest is missing, the \<open>open\<close> raises after everything the
  lint runner and the link scanner did: the trace is theirs, then the header of the
  dependency check and the failed open; no \<open>[MISSING]\<close> line, no import attempt and no
  completion banner is in it, and the exit status is 1. As for other failures: the run
  is terminated by an exception only when opening or reading the manifest or a scanned
  file raises, or when the import of a package named in the manifest raises something
  other than \<open>ImportError\<close>; no probe outcome and no \<open>ImportError\<close> terminates it.
\<close>

theorem missing_manifest_terminates_run:
  "(check_urls env (lit ''.'') [] = (Returned, t2) \<and>
    open_file env (lit ''requirements.txt'') Strict = OpenRaises FileNotFoundError \<longrightarrow>
      main env =
        (Raised FileNotFoundError,
         Print start_banner # check_imports env [] @ t2 @
         [Print (10 # lit ''Checking dependencies...''), Open (lit ''requirements.txt'') ReadText]) \<and>
      exit_status (fst (main env)) = 1 \<and>
      (\<forall>ev\<in>set (snd (main env)).
          \<not> is_missing_line ev \<and> \<not> is_import ev \<and> ev \<noteq> Print completion_banner)) \<and>
   (fst (main env) = Raised e \<longrightarrow>
      file_raises env (lit ''requirements.txt'') Strict e \<or>
      (\<exists>p. p \<in> set (scanned_paths env (lit ''.'')) \<and> file_raises env p Ignore e) \<or>
      (\<exists>lines r l. open_file env (lit ''requirements.txt'') Strict = Opened lines r \<and>
          l \<in> set lines \<and> pkg_name l \<noteq> [] \<and> import_module env (pkg_name l) = ImportRaises e))"
proof (intro conjI impI)
  assume a: "check_urls env (lit ''.'') [] = (Returned, t2) \<and>
    open_file env (lit ''requirements.txt'') Strict = OpenRaises FileNotFoundError"
  then have d: "check_dependencies env [] =
      (Raised FileNotFoundError,
       [Print (10 # lit ''Checking dependencies...''), Open (lit ''requirements.txt'') ReadText])"
    by (simp add: check_dependencies_def Let_def)
  from a d show m: "main env =
        (Raised FileNotFoundError,
         Print start_banner # check_imports env [] @ t2 @
         [Print (10 # lit ''Checking dependencies...''), Open (lit ''requirements.txt'') ReadText])"
    by (simp add: main_decomposed)
  from m show "exit_status (fst (main env)) = 1" by (simp add: exit_status_simps)
  show "\<forall>ev\<in>set (snd (main env)).
          \<not> is_missing_line ev \<and> \<not> is_import ev \<and> ev \<noteq> Print completion_banner"
  proof
    fix ev
    assume "ev \<in> set (snd (main env))"
    with m consider "ev \<in> set (Print start_banner # check_imports env [])" | "ev \<in> set t2"
      | "ev = Print (10 # lit ''Checking dependencies...'')"
      | "ev = Open (lit ''requirements.txt'') ReadText" by auto
    then show "\<not> is_missing_line ev \<and> \<not> is_import ev \<and> ev \<noteq> Print completion_banner"
    proof cases
      case 1
      then show ?thesis by (rule check_imports_early)
    next
      case 2
      with a have "ev \<in> set (snd (check_urls env (lit ''.'') []))" by simp
      then show ?thesis by (rule check_urls_early)
    next
      case 3
      then show ?thesis by (simp add: completion_banner_def lit_def)
    next
      case 4
      then show ?thesis by simp
    qed
  qed
next
  assume r: "fst (main env) = Raised e"
  obtain o2 t2 where u: "check_urls env (lit ''.'') [] = (o2, t2)"
    by (cases "check_urls env (lit ''.'') []")
  show "file_raises env (lit ''requirements.txt'') Strict e \<or>
      (\<exists>p. p \<in> set (scanned_paths env (lit ''.'')) \<and> file_raises env p Ignore e) \<or>
      (\<exists>lines r l. open_file env (lit ''requirements.txt'') Strict = Opened lines r \<and>
          l \<in> set lines \<and> pkg_name l \<noteq> [] \<and> import_module env (pkg_name l) = ImportRaises e)"
  proof (cases o2)
    case (Raised e')
    with r u have "fst (check_urls env (lit ''.'') []) = Raised e" by (simp add: main_decomposed)
    then have "\<exists>p\<in>set (scanned_paths env (lit ''.'')). file_raises env p Ignore e"
      by (rule check_urls_raises)
    then show ?thesis by blast
  next
    case Returned
    obtain o3 t3 where d: "check_dependencies env [] = (o3, t3)"
      by (cases "check_dependencies env []")
    with r u Returned have "fst (check_dependencies env []) = Raised e"
      by (cases o3) (simp_all add: main_decomposed)
    then have "file_raises env (lit ''requirements.txt'') Strict e \<or>
        (\<exists>lines r l. open_file env (lit ''requirements.txt'') Strict = Opened lines r \<and>
          l \<in> set lines \<and> pkg_name l \<noteq> [] \<and> import_module env (pkg_name l) = ImportRaises e)"
      by (rule check_dependencies_raises)
    then show ?thesis by blast
  qed
qed

lemma no_manifest_scan:
  "check_urls no_manifest_env (lit ''.'') [] = check_urls demo_env (lit ''.'') []"
  by (simp add: check_urls_def no_manifest_env_def demo_env_def demo_files_def
      endswith_any_def extensions_def path_join_def scan_line_def urls_of_def split_ws.simps
      is_space_def probe_def probes_so_far_def str_int_def Let_def lit_def suffix_to_prefix
      sublist_Cons_right demo_net_def)

theorem missing_manifest_terminates_run_witness:
  "open_file no_manifest_env (lit ''requirements.txt'') Strict = OpenRaises FileNotFoundError \<and>
   main no_manifest_env =
     (Raised FileNotFoundError,
      [Print start_banner, Print (lit ''Checking imports...''), Run [lit ''flake8'', lit ''.''],
       Print (lit ''Error running flake8: flake8 not found''),
       Print (10 # lit ''Checking external links...''),
       Open (lit ''./README.md'') ReadText,
       Head (lit ''http://a.example/gone'') 5,
       Print (lit ''[BAD LINK] http://a.example/gone -> 404''),
       Head (lit ''http://c.example/'') 5,
       Open (lit ''./docs/notes.txt'') ReadText,
       Head (lit ''http://b.example/slow'') 5,
       Print (lit ''[ERROR] http://b.example/slow -> timed out''),
       Print (10 # lit ''Checking dependencies...''), Open (lit ''requirements.txt'') ReadText]) \<and>
   exit_status (fst (main no_manifest_env)) = 1"
proof -
  have o: "open_file no_manifest_env (lit ''requirements.txt'') Strict = OpenRaises FileNotFoundError"
    by (simp add: no_manifest_env_def)
  have c: "check_imports no_manifest_env [] =
      [Print (lit ''Checking imports...''), Run [lit ''flake8'', lit ''.''],
       Print (lit ''Error running flake8: flake8 not found'')]"
    by (simp add: check_imports_def no_manifest_env_def demo_env_def lit_def)
  note s = no_manifest_scan [unfolded demo_scan]
  note T = missing_manifest_terminates_run [of no_manifest_env _ FileNotFoundError]
  from T s o have "main no_manifest_env =
       (Raised FileNotFoundError,
        Print start_banner # check_imports no_manifest_env [] @
        [Print (10 # lit ''Checking external links...''),
         Open (lit ''./README.md'') ReadText,
         Head (lit ''http://a.example/gone'') 5,
         Print (lit ''[BAD LINK] http://a.example/gone -> 404''),
         Head (lit ''http://c.example/'') 5,
         Open (lit ''./docs/notes.txt'') ReadText,
         Head (lit ''http://b.example/slow'') 5,
         Print (lit ''[ERROR] http://b.example/slow -> timed out'')] @
        [Print (10 # lit ''Checking dependencies...''), Open (lit ''requirements.txt'') ReadText]) \<and>
       exit_status (fst (main no_manifest_env)) = 1"
    by blast
  with o c show ?thesis by (simp add: exit_status_simps)
qed

text \<open>
  C2 as stated fails in its last part: with the manifest present, the failure of one
  package (an import that raises something other than \<open>ImportError\<close>) terminates the run.
\<close>

theorem one_package_can_terminate_run:
  "open_file broken_env (lit ''requirements.txt'') Strict =
     Opened [lit ''==1.0'' @ [10], lit ''brokenpkg'' @ [10], lit ''zzz'' @ [10]] None \<and>
   fst (main broken_env) = Raised (NonImportError (lit ''boom''))"
proof -
  have b: "dep_lines broken_env [lit ''==1.0'' @ [10], lit ''brokenpkg'' @ [10], lit ''zzz'' @ [10]] [] =
     (Raised (NonImportError (lit ''boom'')), [Import (lit ''brokenpkg'')])"
    using pkg_name_demo by (simp add: dep_line_eq broken_env_def) (simp add: lit_def)
  have o: "open_file broken_env (lit ''requirements.txt'') Strict =
     Opened [lit ''==1.0'' @ [10], lit ''brokenpkg'' @ [10], lit ''zzz'' @ [10]] None"
    by (simp add: broken_env_def)
  have d: "check_dependencies broken_env [] =
      (Raised (NonImportError (lit ''boom'')),
       [Print (10 # lit ''Checking dependencies...''), Open (lit ''requirements.txt'') ReadText,
        Import (lit ''brokenpkg'')])"
    unfolding check_dependencies_opened [OF o] b by simp
  show ?thesis
    using o by (simp add: main_decomposed broken_scan d)
qed

lemma check_urls_starts:
  "\<exists>rest. snd (check_urls env base []) = Print (10 # lit ''Checking external links...'') # rest"
proof -
  have "filter is_head [Print (10 # lit ''Checking external links...'')] = []" by simp
  then have "scan_dirs env (os_walk env base) ([Print (10 # lit ''Checking external links...'')] @ []) =
      apsnd ((@) [Print (10 # lit ''Checking external links...'')]) (scan_dirs env (os_walk env base) [])"
    by (rule scan_dirs_after)
  then show ?thesis by (simp add: check_urls_def)
qed

lemma main_trace_prefix:
  "prefix (Print start_banner # check_imports env [] @ snd (check_urls env (lit ''.'') []))
     (snd (main env))"
proof -
  obtain o2 t2 where u: "check_urls env (lit ''.'') [] = (o2, t2)"
    by (cases "check_urls env (lit ''.'') []")
  obtain o3 t3 where d: "check_dependencies env [] = (o3, t3)"
    by (cases "check_dependencies env []")
  show ?thesis
  proof (cases o2)
    case (Raised e)
    with u show ?thesis by (simp add: main_decomposed)
  next
    case Returned
    with u d show ?thesis by (cases o3) (simp_all add: main_decomposed)
  qed
qed

lemma main_outcome:
  "fst (main env) =
     (case fst (check_urls env (lit ''.'') []) of
        Raised e \<Rightarrow> Raised e
      | Returned \<Rightarrow> fst (check_dependencies env []))"
proof -
  obtain o2 t2 where u: "check_urls env (lit ''.'') [] = (o2, t2)"
    by (cases "check_urls env (lit ''.'') []")
  obtain o3 t3 where d: "check_dependencies env [] = (o3, t3)"
    by (cases "check_dependencies env []")
  show ?thesis
  proof (cases o2)
    case (Raised e)
    with u show ?thesis by (simp add: main_decomposed)
  next
    case Returned
    with u d show ?thesis by (cases o3) (simp_all add: main_decomposed)
  qed
qed

text \<open>
  C8. When launching flake8 raises, \<open>check_imports\<close> prints the error and returns, and
  the next thing the run does is start the link scanner. The return code of a completed
  flake8 changes nothing in the run, and the outcome of the run (so its exit status) is
  the same whatever the subprocess call does.
\<close>

theorem lint_failure_is_contained:
  "(subprocess_run env [lit ''flake8'', lit ''.''] = LaunchFails msg \<longrightarrow>
      check_imports env tr =
        tr @ [Print (lit ''Checking imports...''), Run [lit ''flake8'', lit ''.''],
              Print (lit ''Error running flake8: '' @ msg)] \<and>
      prefix [Print start_banner, Print (lit ''Checking imports...''), Run [lit ''flake8'', lit ''.''],
              Print (lit ''Error running flake8: '' @ msg),
              Print (10 # lit ''Checking external links...'')]
        (snd (main env))) \<and>
   main (env\<lparr>subprocess_run := (\<lambda>argv. Completed rc)\<rparr>) =
     main (env\<lparr>subprocess_run := (\<lambda>argv. Completed rc')\<rparr>) \<and>
   fst (main (env\<lparr>subprocess_run := r\<rparr>)) = fst (main env) \<and>
   exit_status (fst (main (env\<lparr>subprocess_run := r\<rparr>))) = exit_status (fst (main env))"
proof (intro conjI impI)
  assume a: "subprocess_run env [lit ''flake8'', lit ''.''] = LaunchFails msg"
  then show c: "check_imports env tr =
        tr @ [Print (lit ''Checking imports...''), Run [lit ''flake8'', lit ''.''],
              Print (lit ''Error running flake8: '' @ msg)]"
    by (simp add: check_imports_def Let_def)
  from a have c0: "check_imports env [] =
        [Print (lit ''Checking imports...''), Run [lit ''flake8'', lit ''.''],
         Print (lit ''Error running flake8: '' @ msg)]"
    by (simp add: check_imports_def Let_def)
  obtain rest where r: "snd (check_urls env (lit ''.'') []) =
      Print (10 # lit ''Checking external links...'') # rest"
    using check_urls_starts by blast
  have "prefix (Print start_banner # check_imports env [] @ snd (check_urls env (lit ''.'') []))
     (snd (main env))" by (rule main_trace_prefix)
  then have "prefix ([Print start_banner, Print (lit ''Checking imports...''), Run [lit ''flake8'', lit ''.''],
              Print (lit ''Error running flake8: '' @ msg),
              Print (10 # lit ''Checking external links...'')] @ rest) (snd (main env))"
    by (simp add: c0 r)
  then show "prefix [Print start_banner, Print (lit ''Checking imports...''), Run [lit ''flake8'', lit ''.''],
              Print (lit ''Error running flake8: '' @ msg),
              Print (10 # lit ''Checking external links...'')] (snd (main env))"
    by (rule append_prefixD)
next
  have "check_imports (env\<lparr>subprocess_run := (\<lambda>argv. Completed rc)\<rparr>) [] =
      check_imports (env\<lparr>subprocess_run := (\<lambda>argv. Completed rc')\<rparr>) []"
    by (simp add: check_imports_def)
  then show "main (env\<lparr>subprocess_run := (\<lambda>argv. Completed rc)\<rparr>) =
     main (env\<lparr>subprocess_run := (\<lambda>argv. Completed rc')\<rparr>)"
    by (simp add: main_decomposed check_urls_lint_free check_dependencies_lint_free
        split: prod.split outcome.split)
next
  show o: "fst (main (env\<lparr>subprocess_run := r\<rparr>)) = fst (main env)"
    by (simp add: main_outcome check_urls_lint_free check_dependencies_lint_free
        split: outcome.split)
  show "exit_status (fst (main (env\<lparr>subprocess_run := r\<rparr>))) = exit_status (fst (main env))"
    by (simp add: o)
qed

theorem lint_failure_is_contained_witness:
  "subprocess_run demo_env [lit ''flake8'', lit ''.''] = LaunchFails (lit ''flake8 not found'') \<and>
   check_imports demo_env [] =
     [Print (lit ''Checking imports...''), Run [lit ''flake8'', lit ''.''],
      Print (lit ''Error running flake8: flake8 not found'')] \<and>
   prefix [Print start_banner, Print (lit ''Checking imports...''), Run [lit ''flake8'', lit ''.''],
           Print (lit ''Error running flake8: flake8 not found''),
           Print (10 # lit ''Checking external links...'')]
     (snd (main demo_env))"
proof -
  have a: "subprocess_run demo_env [lit ''flake8'', lit ''.''] = LaunchFails (lit ''flake8 not found'')"
    by (simp add: demo_env_def)
  note T = lint_failure_is_contained [of demo_env "lit ''flake8 not found''" "[]"]
  from T a have "check_imports demo_env [] =
        [] @ [Print (lit ''Checking imports...''), Run [lit ''flake8'', lit ''.''],
              Print (lit ''Error running flake8: '' @ lit ''flake8 not found'')] \<and>
      prefix [Print start_banner, Print (lit ''Checking imports...''), Run [lit ''flake8'', lit ''.''],
              Print (lit ''Error running flake8: '' @ lit ''flake8 not found''),
              Print (10 # lit ''Checking external links...'')]
        (snd (main demo_env))"
    by blast
  moreover have "lit ''Error running flake8: '' @ lit ''flake8 not found'' =
      lit ''Error running flake8: flake8 not found''" by (simp add: lit_def)
  ultimately show ?thesis using a by simp
qed

text \<open>
  C6, amended. The start banner is always the first event, followed by the lint runner
  and then the link scanner. When every scanned file can be opened and read to its end,
  the manifest can be opened and read to its end and no import raises anything but
  \<open>ImportError\<close>, the run is the start banner, the lint runner, the link scanner, the
  dependency checker and the completion banner, in this order, and the exit status is
  0, whatever the probes and the imports report.
\<close>

theorem checks_run_in_order_between_banners:
  "hd (snd (main env)) = Print start_banner \<and>
   prefix (Print start_banner # check_imports env [] @ snd (check_urls env (lit ''.'') []))
     (snd (main env)) \<and>
   ((\<forall>p\<in>set (scanned_paths env (lit ''.'')). reads_to_end env p Ignore) \<and>
    open_file env (lit ''requirements.txt'') Strict = Opened lines None \<and>
    (\<forall>l\<in>set lines. pkg_name l = [] \<or> import_module env (pkg_name l) = Imported \<or>
        import_module env (pkg_name l) = ImportError) \<longrightarrow>
      main env =
        (Returned,
         Print start_banner # check_imports env [] @ snd (check_urls env (lit ''.'') []) @
         snd (check_dependencies env []) @ [Print completion_banner]) \<and>
      exit_status (fst (main env)) = 0 \<and>
      last (snd (main env)) = Print completion_banner)"
proof (intro conjI impI)
  have p: "prefix (Print start_banner # check_imports env [] @ snd (check_urls env (lit ''.'') []))
     (snd (main env))" by (rule main_trace_prefix)
  then show "hd (snd (main env)) = Print start_banner" by (auto simp: prefix_def)
  from p show "prefix (Print start_banner # check_imports env [] @ snd (check_urls env (lit ''.'') []))
     (snd (main env))" .
next
  assume a: "(\<forall>p\<in>set (scanned_paths env (lit ''.'')). reads_to_end env p Ignore) \<and>
    open_file env (lit ''requirements.txt'') Strict = Opened lines None \<and>
    (\<forall>l\<in>set lines. pkg_name l = [] \<or> import_module env (pkg_name l) = Imported \<or>
        import_module env (pkg_name l) = ImportError)"
  have "fst (check_urls env (lit ''.'') []) = Returned"
  proof (cases "fst (check_urls env (lit ''.'') [])")
    case Returned
    then show ?thesis .
  next
    case (Raised e)
    then have "\<exists>p\<in>set (scanned_paths env (lit ''.'')). file_raises env p Ignore e"
      by (rule check_urls_raises)
    with a show ?thesis by (auto simp: reads_to_end_def file_raises_def)
  qed
  then have u: "check_urls env (lit ''.'') [] = (Returned, snd (check_urls env (lit ''.'') []))"
    by (cases "check_urls env (lit ''.'') []") simp
  have "fst (dep_lines env lines []) = Returned"
    using a dep_lines_complete [of lines env "[]"] by blast
  moreover have "open_file env (lit ''requirements.txt'') Strict = Opened lines None"
    using a by simp
  ultimately have "fst (check_dependencies env []) = Returned"
    by (cases "dep_lines env lines []") (simp add: check_dependencies_opened)
  then have d: "check_dependencies env [] = (Returned, snd (check_dependencies env []))"
    by (cases "check_dependencies env []") simp
  show m: "main env =
        (Returned,
         Print start_banner # check_imports env [] @ snd (check_urls env (lit ''.'') []) @
         snd (check_dependencies env []) @ [Print completion_banner])"
    by (subst main_decomposed, subst u, subst d) simp
  from m show "exit_status (fst (main env)) = 0" by (simp add: exit_status_simps)
  from m show "last (snd (main env)) = Print completion_banner" by simp
qed

lemma demo_deps:
  "check_dependencies demo_env [] =
     (Returned,
      [Print (10 # lit ''Checking dependencies...''), Open (lit ''requirements.txt'') ReadText,
       Import (lit ''requests''), Import (lit ''not_a_real_pkg_xyz''),
       Print (lit ''[MISSING] not_a_real_pkg_xyz'')])"
proof -
  have o: "open_file demo_env (lit ''requirements.txt'') Strict =
      Opened [lit ''requests==2.31.0'' @ [10], lit ''not_a_real_pkg_xyz'' @ [10]] None"
    by (simp add: demo_env_def demo_files_def lit_def)
  have "dep_lines demo_env [lit ''requests==2.31.0'' @ [10], lit ''not_a_real_pkg_xyz'' @ [10]] [] =
      (Returned, [Import (lit ''requests''), Import (lit ''not_a_real_pkg_xyz''),
       Print (lit ''[MISSING] not_a_real_pkg_xyz'')])"
    using pkg_name_demo by (simp add: dep_line_eq demo_env_def) (simp add: lit_def)
  then show ?thesis
    unfolding check_dependencies_opened [OF o] by simp
qed

theorem checks_run_in_order_between_banners_witness:
  "scanned_paths demo_env (lit ''.'') = [lit ''./README.md'', lit ''./docs/notes.txt''] \<and>
   reads_to_end demo_env (lit ''./README.md'') Ignore \<and>
   reads_to_end demo_env (lit ''./docs/notes.txt'') Ignore \<and>
   open_file demo_env (lit ''requirements.txt'') Strict =
     Opened [lit ''requests==2.31.0'' @ [10], lit ''not_a_real_pkg_xyz'' @ [10]] None \<and>
   import_module demo_env (pkg_name (lit ''requests==2.31.0'' @ [10])) = Imported \<and>
   import_module demo_env (pkg_name (lit ''not_a_real_pkg_xyz'' @ [10])) = ImportError \<and>
   main demo_env =
     (Returned,
      [Print start_banner, Print (lit ''Checking imports...''), Run [lit ''flake8'', lit ''.''],
       Print (lit ''Error running flake8: flake8 not found''),
       Print (10 # lit ''Checking external links...''),
       Open (lit ''./README.md'') ReadText,
       Head (lit ''http://a.example/gone'') 5,
       Print (lit ''[BAD LINK] http://a.example/gone -> 404''),
       Head (lit ''http://c.example/'') 5,
       Open (lit ''./docs/notes.txt'') ReadText,
       Head (lit ''http://b.example/slow'') 5,
       Print (lit ''[ERROR] http://b.example/slow -> timed out''),
       Print (10 # lit ''Checking dependencies...''), Open (lit ''requirements.txt'') ReadText,
       Import (lit ''requests''), Import (lit ''not_a_real_pkg_xyz''),
       Print (lit ''[MISSING] not_a_real_pkg_xyz''),
       Print completion_banner]) \<and>
   exit_status (fst (main demo_env)) = 0"
proof -
  let ?l1 = "lit ''requests==2.31.0'' @ [10]"
  let ?l2 = "lit ''not_a_real_pkg_xyz'' @ [10]"
  have sp: "scanned_paths demo_env (lit ''.'') = [lit ''./README.md'', lit ''./docs/notes.txt'']"
    by (simp add: scanned_paths_def scanned_files_def demo_env_def endswith_any_def
        extensions_def path_join_def lit_def suffix_to_prefix)
  have o1: "reads_to_end demo_env (lit ''./README.md'') Ignore"
    by (simp add: reads_to_end_def demo_env_def demo_files_def lit_def)
  have o2: "reads_to_end demo_env (lit ''./docs/notes.txt'') Ignore"
    by (simp add: reads_to_end_def demo_env_def demo_files_def lit_def)
  have all: "\<forall>p\<in>set (scanned_paths demo_env (lit ''.'')). reads_to_end demo_env p Ignore"
    using o1 o2 by (simp add: sp)
  have o: "open_file demo_env (lit ''requirements.txt'') Strict = Opened [?l1, ?l2] None"
    by (simp add: demo_env_def demo_files_def lit_def)
  have i1: "import_module demo_env (pkg_name ?l1) = Imported"
    using pkg_name_demo by (simp add: demo_env_def)
  have i2: "import_module demo_env (pkg_name ?l2) = ImportError"
    using pkg_name_demo by (simp add: demo_env_def lit_def)
  have ls: "\<forall>l\<in>set [?l1, ?l2]. pkg_name l = [] \<or> import_module demo_env (pkg_name l) = Imported \<or>
        import_module demo_env (pkg_name l) = ImportError"
    using i1 i2 by simp
  have c: "check_imports demo_env [] =
      [Print (lit ''Checking imports...''), Run [lit ''flake8'', lit ''.''],
       Print (lit ''Error running flake8: flake8 not found'')]"
    by (simp add: check_imports_def demo_env_def lit_def)
  note T = checks_run_in_order_between_banners [of demo_env "[?l1, ?l2]"]
  from T all o ls have "main demo_env =
        (Returned,
         Print start_banner # check_imports demo_env [] @ snd (check_urls demo_env (lit ''.'') []) @
         snd (check_dependencies demo_env []) @ [Print completion_banner]) \<and>
      exit_status (fst (main demo_env)) = 0"
    by blast
  then have "main demo_env =
     (Returned,
      [Print start_banner, Print (lit ''Checking imports...''), Run [lit ''flake8'', lit ''.''],
       Print (lit ''Error running flake8: flake8 not found''),
       Print (10 # lit ''Checking external links...''),
       Open (lit ''./README.md'') ReadText,
       Head (lit ''http://a.example/gone'') 5,
       Print (lit ''[BAD LINK] http://a.example/gone -> 404''),
       Head (lit ''http://c.example/'') 5,
       Open (lit ''./docs/notes.txt'') ReadText,
       Head (lit ''http://b.example/slow'') 5,
       Print (lit ''[ERROR] http://b.example/slow -> timed out''),
       Print (10 # lit ''Checking dependencies...''), Open (lit ''requirements.txt'') ReadText,
       Import (lit ''requests''), Import (lit ''not_a_real_pkg_xyz''),
       Print (lit ''[MISSING] not_a_real_pkg_xyz''),
       Print completion_banner]) \<and>
      exit_status (fst (main demo_env)) = 0"
    by (simp add: c demo_scan demo_deps exit_status_simps)
  with sp o1 o2 o i1 i2 show ?thesis by blast
qed

text \<open>
  C6 as stated fails: the manifest is opened, yet the import of \<open>brokenpkg\<close> ends the run
  there, with exit status 1 and no completion banner.
\<close>

theorem manifest_opened_but_no_completion_banner:
  "open_file broken_env (lit ''requirements.txt'') Strict =
     Opened [lit ''==1.0'' @ [10], lit ''brokenpkg'' @ [10], lit ''zzz'' @ [10]] None \<and>
   snd (main broken_env) =
     [Print start_banner, Print (lit ''Checking imports...''), Run [lit ''flake8'', lit ''.''],
      Print (10 # lit ''Checking external links...''),
      Print (10 # lit ''Checking dependencies...''), Open (lit ''requirements.txt'') ReadText,
      Import (lit ''brokenpkg'')] \<and>
   exit_status (fst (main broken_env)) = 1"
proof -
  have b: "dep_lines broken_env [lit ''==1.0'' @ [10], lit ''brokenpkg'' @ [10], lit ''zzz'' @ [10]] [] =
     (Raised (NonImportError (lit ''boom'')), [Import (lit ''brokenpkg'')])"
    using pkg_name_demo by (simp add: dep_line_eq broken_env_def) (simp add: lit_def)
  have o: "open_file broken_env (lit ''requirements.txt'') Strict =
     Opened [lit ''==1.0'' @ [10], lit ''brokenpkg'' @ [10], lit ''zzz'' @ [10]] None"
    by (simp add: broken_env_def)
  have d: "check_dependencies broken_env [] =
      (Raised (NonImportError (lit ''boom'')),
       [Print (10 # lit ''Checking dependencies...''), Open (lit ''requirements.txt'') ReadText,
        Import (lit ''brokenpkg'')])"
    unfolding check_dependencies_opened [OF o] b by simp
  have c: "check_imports broken_env [] = [Print (lit ''Checking imports...''), Run [lit ''flake8'', lit ''.'']]"
    by (simp add: check_imports_def broken_env_def)
  show ?thesis
    using o by (simp add: main_decomposed broken_scan d c exit_status_simps)
qed

end
